theory Spec2Isabelle
  imports Complex_Main
begin

section \<open>Batch operations (batch-operations.js): data model\<close>

text \<open>
  JavaScript values as far as the handlers inspect them: an item is an identifier
  (number or string), a record (an object, given by its own properties in insertion
  order) or one of the values without properties. Numbers are the integers; inherited
  properties of objects and of primitives are not part of the model.
\<close>

datatype jsval =
    JUndefined
  | JNull
  | JBool bool
  | JNum int
  | JStr string
  | JObj "(string \<times> jsval) list"

text \<open>The truth value JavaScript gives a value in \<open>!v\<close> and \<open>if (v)\<close>.\<close>

fun truthy :: "jsval \<Rightarrow> bool" where
  "truthy JUndefined = False"
| "truthy JNull = False"
| "truthy (JBool b) = b"
| "truthy (JNum n) = (n \<noteq> 0)"
| "truthy (JStr s) = (s \<noteq> [])"
| "truthy (JObj kvs) = True"

text \<open>\<open>typeof v === 'object'\<close>: true of objects and of \<open>null\<close>.\<close>

fun typeof_object :: "jsval \<Rightarrow> bool" where
  "typeof_object JNull = True"
| "typeof_object (JObj kvs) = True"
| "typeof_object v = False"

text \<open>
  \<open>v[k]\<close>: reading a property of \<open>null\<close> or \<open>undefined\<close> throws a TypeError (\<open>Inl\<close>
  carries its message); an absent property reads as \<open>undefined\<close>.
\<close>

definition type_error_message :: "string \<Rightarrow> string \<Rightarrow> string" where
  "type_error_message what k =
     ''Cannot read properties of '' @ what @ '' (reading '' @ [CHR 0x27] @ k @ [CHR 0x27] @ '')''"

fun get_prop :: "jsval \<Rightarrow> string \<Rightarrow> string + jsval" where
  "get_prop JUndefined k = Inl (type_error_message ''undefined'' k)"
| "get_prop JNull k = Inl (type_error_message ''null'' k)"
| "get_prop (JObj kvs) k = Inr (case map_of kvs k of None \<Rightarrow> JUndefined | Some v \<Rightarrow> v)"
| "get_prop v k = Inr JUndefined"

text \<open>
  A thrown value, as far as a catch block inspects it: \<open>Error msg\<close> is a value whose
  \<open>message\<close> property is the string \<open>msg\<close> (an \<open>Error\<close> object, a TypeError), \<open>NoMessage\<close>
  a value without a \<open>message\<close> property (a thrown string, number or plain object);
  \<open>null\<close> and \<open>undefined\<close> can be thrown too. A \<open>message\<close> that is not a string is not
  part of the model.
\<close>

datatype thrown = Error string | NoMessage | ThrownNull | ThrownUndefined

text \<open>
  \<open>error.message\<close>: the message, \<open>None\<close> when the property is absent; reading it from
  \<open>null\<close> or \<open>undefined\<close> throws a TypeError (\<open>Inl\<close> carries its message).
\<close>

fun message_of :: "thrown \<Rightarrow> string + string option" where
  "message_of (Error msg) = Inr (Some msg)"
| "message_of NoMessage = Inr None"
| "message_of ThrownNull = Inl (type_error_message ''null'' ''message'')"
| "message_of ThrownUndefined = Inl (type_error_message ''undefined'' ''message'')"

text \<open>
  An ItemResult \<open>{success, result, error, id, item}\<close>. \<open>r_error\<close> is the string the field
  \<open>error\<close> holds, \<open>None\<close> when the field is not set or holds \<open>undefined\<close>; \<open>r_result\<close> and
  \<open>r_id\<close> are \<open>None\<close> when the object literal does not set the field. Only the delete
  handler sets \<open>id\<close>.
\<close>

record item_result =
  r_success :: bool
  r_result :: "jsval option"
  r_error :: "string option"
  r_id :: "jsval option"
  r_item :: jsval

text \<open>
  The collaborators act on a world \<open>'w\<close> (the task store and whatever else they touch):
  a call takes the world and returns the new one, with \<open>Inl e\<close> when the call throws
  \<open>e\<close> (or the promise it returns rejects with \<open>e\<close>) and \<open>Inr v\<close> when it returns \<open>v\<close>.
  Every call settles: a collaborator whose promise stays pending is not part of the
  model.
\<close>

type_synonym 'w call = "'w \<Rightarrow> (thrown + jsval) \<times> 'w"

text \<open>A repository object; a method it does not have is \<open>None\<close>.\<close>

record 'w repository =
  repo_create :: "(jsval \<Rightarrow> 'w call) option"
  repo_update :: "(jsval \<Rightarrow> jsval \<Rightarrow> 'w call) option"
  repo_delete :: "(jsval \<Rightarrow> 'w call) option"

text \<open>
  The object handed to \<open>recordOperationMetrics\<close>, without its clock readings, and a
  metrics collector: the call acts on the world and may throw; what it returns is not
  looked at.
\<close>

record metrics =
  m_operation :: string
  m_success :: bool
  m_total :: nat
  m_successCount :: nat
  m_failureCount :: nat

type_synonym 'w collector = "metrics \<Rightarrow> 'w \<Rightarrow> thrown option \<times> 'w"

text \<open>
  A batch size: a non-negative integer (\<open>0\<close> stands for every value that is not
  positive) or \<open>NaN\<close>, which \<open>parseInt\<close> yields for a malformed setting and which an
  \<open>undefined\<close> option behaves like.
\<close>

datatype count = Count nat | NotANumber

text \<open>
  The state of a \<open>BatchOperations\<close> instance and the options object a handler and the
  scheduler read: \<open>BATCH_OPERATIONS_CONFIG\<close> merged with the constructor's and the
  call's options. \<open>maxConcurrent\<close> and \<open>retryAttempts\<close> are non-negative integers; \<open>0\<close>
  stands for every value that is not positive and for \<open>NaN\<close>, which the loops treat
  alike. \<open>profiling\<close> and \<open>metricsCollector\<close> are the instance's fields of these names,
  set by the constructor. \<open>priorityBased\<close> and \<open>adaptiveConcurrency\<close> are read nowhere
  and are left out.
\<close>

record 'w options =
  enabled :: bool
  maxConcurrent :: nat
  batchSize :: count
  retryAttempts :: nat
  retryDelay :: real
  repository :: "'w repository option"
  validateItem :: "(jsval \<Rightarrow> 'w call) option"
  idField :: "string option"
  processor :: "(jsval \<Rightarrow> 'w call) option"
  profiling :: bool
  metricsCollector :: "'w collector"

text \<open>The options of one call: a key that is not given is \<open>None\<close>.\<close>

record 'w overrides =
  o_maxConcurrent :: "nat option"
  o_batchSize :: "count option"
  o_retryAttempts :: "nat option"
  o_retryDelay :: "real option"
  o_repository :: "'w repository option"
  o_validateItem :: "(jsval \<Rightarrow> 'w call) option"
  o_idField :: "string option"
  o_processor :: "(jsval \<Rightarrow> 'w call) option"

definition orElse :: "'a option \<Rightarrow> 'a option \<Rightarrow> 'a option" where
  "orElse a b = (case b of None \<Rightarrow> a | Some v \<Rightarrow> Some v)"

text \<open>
  \<open>{ ...config, ...options }\<close>: a key of \<open>options\<close> wins. \<open>execute\<close> and \<open>batchProcess\<close>
  read \<open>enabled\<close>, \<open>profiling\<close> and \<open>metricsCollector\<close> from the instance only.
\<close>

definition merge :: "'w options \<Rightarrow> 'w overrides \<Rightarrow> 'w options" where
  "merge c ov =
     \<lparr> enabled = enabled c,
       maxConcurrent = (case o_maxConcurrent ov of None \<Rightarrow> maxConcurrent c | Some v \<Rightarrow> v),
       batchSize = (case o_batchSize ov of None \<Rightarrow> batchSize c | Some v \<Rightarrow> v),
       retryAttempts = (case o_retryAttempts ov of None \<Rightarrow> retryAttempts c | Some v \<Rightarrow> v),
       retryDelay = (case o_retryDelay ov of None \<Rightarrow> retryDelay c | Some v \<Rightarrow> v),
       repository = orElse (repository c) (o_repository ov),
       validateItem = orElse (validateItem c) (o_validateItem ov),
       idField = orElse (idField c) (o_idField ov),
       processor = orElse (processor c) (o_processor ov),
       profiling = profiling c,
       metricsCollector = metricsCollector c \<rparr>"

text \<open>\<open>{ ...a, ...b }\<close> of two option objects of a call.\<close>

definition override :: "'w overrides \<Rightarrow> 'w overrides \<Rightarrow> 'w overrides" where
  "override a b =
     \<lparr> o_maxConcurrent = orElse (o_maxConcurrent a) (o_maxConcurrent b),
       o_batchSize = orElse (o_batchSize a) (o_batchSize b),
       o_retryAttempts = orElse (o_retryAttempts a) (o_retryAttempts b),
       o_retryDelay = orElse (o_retryDelay a) (o_retryDelay b),
       o_repository = orElse (o_repository a) (o_repository b),
       o_validateItem = orElse (o_validateItem a) (o_validateItem b),
       o_idField = orElse (o_idField a) (o_idField b),
       o_processor = orElse (o_processor a) (o_processor b) \<rparr>"

text \<open>A merged options object passed on as the options of a call: every key is given.\<close>

definition as_overrides :: "'w options \<Rightarrow> 'w overrides" where
  "as_overrides c =
     \<lparr> o_maxConcurrent = Some (maxConcurrent c),
       o_batchSize = Some (batchSize c),
       o_retryAttempts = Some (retryAttempts c),
       o_retryDelay = Some (retryDelay c),
       o_repository = repository c,
       o_validateItem = validateItem c,
       o_idField = idField c,
       o_processor = processor c \<rparr>"

section \<open>Operation handlers\<close>

text \<open>
  An operation instance: \<open>validate(items)\<close> and \<open>execute(items)\<close>. \<open>Inl e\<close> is the value
  \<open>e\<close> thrown (by \<open>execute\<close>: the promise rejects with it). The promise of \<open>execute\<close>
  settles, and it resolves with an array of ItemResults.
\<close>

record 'w operation =
  op_validate :: "jsval list \<Rightarrow> thrown + bool"
  op_execute :: "jsval list \<Rightarrow> 'w \<Rightarrow> (thrown + item_result list) \<times> 'w"

text \<open>\<open>BatchOperation.validate\<close>: the items are an array with at least one element.\<close>

definition validate :: "jsval list \<Rightarrow> thrown + bool" where
  "validate items = Inr (length items > 0)"

text \<open>
  \<open>BatchOperation.handleError(error, item)\<close>. It reads \<open>error.message\<close>, so it throws a
  TypeError (\<open>Inl\<close> carries its message) when \<open>error\<close> is \<open>null\<close> or \<open>undefined\<close>.
\<close>

definition handleError :: "thrown \<Rightarrow> jsval \<Rightarrow> string + item_result" where
  "handleError error item =
     (case message_of error of
        Inl typeError \<Rightarrow> Inl typeError
      | Inr msg \<Rightarrow>
          Inr \<lparr> r_success = False, r_result = None, r_error = msg, r_id = None, r_item = item \<rparr>)"

text \<open>The object literals \<open>{ success: false, error, item }\<close> and \<open>{ success: true, result, item }\<close>.\<close>

definition failed_result :: "string \<Rightarrow> jsval \<Rightarrow> item_result" where
  "failed_result msg item =
     \<lparr> r_success = False, r_result = None, r_error = Some msg, r_id = None, r_item = item \<rparr>"

definition succeeded_result :: "jsval \<Rightarrow> jsval \<Rightarrow> item_result" where
  "succeeded_result res item =
     \<lparr> r_success = True, r_result = Some res, r_error = None, r_id = None, r_item = item \<rparr>"

text \<open>
  \<open>catch (error) { results.push(this.handleError(error, item)); }\<close>: the item's result,
  or the TypeError \<open>handleError\<close> throws, which leaves the loop and the handler.
\<close>

definition caught :: "thrown \<Rightarrow> jsval \<Rightarrow> 'w \<Rightarrow> (thrown + item_result) \<times> 'w" where
  "caught error item w =
     (case handleError error item of
        Inl typeError \<Rightarrow> (Inl (Error typeError), w)
      | Inr r \<Rightarrow> (Inr r, w))"

text \<open>
  \<open>for (const item of items) { try { ... } catch (error) { ... } }\<close>: the body runs on
  every item in order, each on the world the one before left, and pushes one result;
  what the body throws (\<open>Inl\<close>) ends the loop.
\<close>

fun for_items ::
  "(jsval \<Rightarrow> 'w \<Rightarrow> (thrown + item_result) \<times> 'w) \<Rightarrow> jsval list \<Rightarrow> 'w \<Rightarrow>
     (thrown + item_result list) \<times> 'w" where
  "for_items body [] w = (Inr [], w)"
| "for_items body (item # items) w =
     (case body item w of
        (Inl e, w1) \<Rightarrow> (Inl e, w1)
      | (Inr r, w1) \<Rightarrow>
          (case for_items body items w1 of
             (Inl e, w2) \<Rightarrow> (Inl e, w2)
           | (Inr rs, w2) \<Rightarrow> (Inr (r # rs), w2)))"

text \<open>
  The validation step that the create and update handlers share: no validator, or one
  that returns exactly \<open>true\<close>, lets the item through (\<open>Inr None\<close>); any other return
  value gives the item's failed result; \<open>Inl e\<close> when the validator throws \<open>e\<close>.
\<close>

definition validation_step ::
  "(jsval \<Rightarrow> 'w call) option \<Rightarrow> jsval \<Rightarrow> 'w \<Rightarrow> (thrown + item_result option) \<times> 'w" where
  "validation_step vi item w =
     (case vi of
        None \<Rightarrow> (Inr None, w)
      | Some v \<Rightarrow>
          (case v item w of
             (Inl error, w1) \<Rightarrow> (Inl error, w1)
           | (Inr validationResult, w1) \<Rightarrow>
               if validationResult \<noteq> JBool True
               then (Inr (Some (failed_result
                                  (case validationResult of JStr s \<Rightarrow> s
                                   | _ \<Rightarrow> ''Validation failed'')
                                  item)), w1)
               else (Inr None, w1)))"

text \<open>The body of \<open>CreateOperation.execute\<close>'s loop.\<close>

definition create_item ::
  "(jsval \<Rightarrow> 'w call) \<Rightarrow> (jsval \<Rightarrow> 'w call) option \<Rightarrow> jsval \<Rightarrow> 'w \<Rightarrow>
     (thrown + item_result) \<times> 'w" where
  "create_item create vi item w =
     (case validation_step vi item w of
        (Inl error, w1) \<Rightarrow> caught error item w1
      | (Inr (Some failed), w1) \<Rightarrow> (Inr failed, w1)
      | (Inr None, w1) \<Rightarrow>
          (case create item w1 of
             (Inl error, w2) \<Rightarrow> caught error item w2
           | (Inr res, w2) \<Rightarrow> (Inr (succeeded_result res item), w2)))"

definition create_execute ::
  "'w options \<Rightarrow> jsval list \<Rightarrow> 'w \<Rightarrow> (thrown + item_result list) \<times> 'w" where
  "create_execute opts items w =
     (case repository opts of
        None \<Rightarrow> (Inl (Error ''Repository with create() method is required''), w)
      | Some repo \<Rightarrow>
          (case repo_create repo of
             None \<Rightarrow> (Inl (Error ''Repository with create() method is required''), w)
           | Some create \<Rightarrow> for_items (create_item create (validateItem opts)) items w))"

definition missing_id_message :: "string \<Rightarrow> string" where
  "missing_id_message idf = ''Item is missing '' @ idf @ '' field''"

definition id_field_of :: "'w options \<Rightarrow> string" where
  "id_field_of opts = (case idField opts of None \<Rightarrow> ''id'' | Some f \<Rightarrow> f)"

text \<open>The body of \<open>UpdateOperation.execute\<close>'s loop.\<close>

definition update_item ::
  "(jsval \<Rightarrow> jsval \<Rightarrow> 'w call) \<Rightarrow> (jsval \<Rightarrow> 'w call) option \<Rightarrow> string \<Rightarrow> jsval \<Rightarrow> 'w \<Rightarrow>
     (thrown + item_result) \<times> 'w" where
  "update_item update vi idf item w =
     (case get_prop item idf of
        Inl typeError \<Rightarrow> caught (Error typeError) item w
      | Inr ident \<Rightarrow>
          if \<not> truthy ident then (Inr (failed_result (missing_id_message idf) item), w)
          else
            (case validation_step vi item w of
               (Inl error, w1) \<Rightarrow> caught error item w1
             | (Inr (Some failed), w1) \<Rightarrow> (Inr failed, w1)
             | (Inr None, w1) \<Rightarrow>
                 (case update ident item w1 of
                    (Inl error, w2) \<Rightarrow> caught error item w2
                  | (Inr res, w2) \<Rightarrow> (Inr (succeeded_result res item), w2))))"

definition update_execute ::
  "'w options \<Rightarrow> jsval list \<Rightarrow> 'w \<Rightarrow> (thrown + item_result list) \<times> 'w" where
  "update_execute opts items w =
     (case repository opts of
        None \<Rightarrow> (Inl (Error ''Repository with update() method is required''), w)
      | Some repo \<Rightarrow>
          (case repo_update repo of
             None \<Rightarrow> (Inl (Error ''Repository with update() method is required''), w)
           | Some update \<Rightarrow>
               for_items (update_item update (validateItem opts) (id_field_of opts)) items w))"

text \<open>The body of \<open>DeleteOperation.execute\<close>'s loop.\<close>

definition delete_item ::
  "(jsval \<Rightarrow> 'w call) \<Rightarrow> string \<Rightarrow> jsval \<Rightarrow> 'w \<Rightarrow> (thrown + item_result) \<times> 'w" where
  "delete_item delete idf item w =
     (case (if typeof_object item then get_prop item idf else Inr item) of
        Inl typeError \<Rightarrow> caught (Error typeError) item w
      | Inr ident \<Rightarrow>
          if \<not> truthy ident then (Inr (failed_result (missing_id_message idf) item), w)
          else
            (case delete ident w of
               (Inl error, w1) \<Rightarrow> caught error item w1
             | (Inr res, w1) \<Rightarrow>
                 (Inr ((succeeded_result res item)\<lparr> r_id := Some ident \<rparr>), w1)))"

definition delete_execute ::
  "'w options \<Rightarrow> jsval list \<Rightarrow> 'w \<Rightarrow> (thrown + item_result list) \<times> 'w" where
  "delete_execute opts items w =
     (case repository opts of
        None \<Rightarrow> (Inl (Error ''Repository with delete() method is required''), w)
      | Some repo \<Rightarrow>
          (case repo_delete repo of
             None \<Rightarrow> (Inl (Error ''Repository with delete() method is required''), w)
           | Some delete \<Rightarrow> for_items (delete_item delete (id_field_of opts)) items w))"

text \<open>The body of \<open>CustomOperation.execute\<close>'s loop.\<close>

definition custom_item ::
  "(jsval \<Rightarrow> 'w call) \<Rightarrow> jsval \<Rightarrow> 'w \<Rightarrow> (thrown + item_result) \<times> 'w" where
  "custom_item process item w =
     (case process item w of
        (Inl error, w1) \<Rightarrow> caught error item w1
      | (Inr res, w1) \<Rightarrow> (Inr (succeeded_result res item), w1))"

definition custom_execute ::
  "'w options \<Rightarrow> jsval list \<Rightarrow> 'w \<Rightarrow> (thrown + item_result list) \<times> 'w" where
  "custom_execute opts items w =
     (case processor opts of
        None \<Rightarrow> (Inl (Error ''Processor function is required''), w)
      | Some process \<Rightarrow> for_items (custom_item process) items w)"

section \<open>The handler registry\<close>

text \<open>
  A handler class is its constructor: from the merged options to an operation instance
  (\<open>Inl e\<close> when the constructor throws \<open>e\<close>). \<open>BatchOperationFactory.handlers\<close> maps an
  operation type to its class.
\<close>

type_synonym 'w handler_class = "'w options \<Rightarrow> thrown + 'w operation"

type_synonym 'w registry = "string \<Rightarrow> 'w handler_class option"

definition CreateOperation :: "'w handler_class" where
  "CreateOperation opts = Inr \<lparr> op_validate = validate, op_execute = create_execute opts \<rparr>"

definition UpdateOperation :: "'w handler_class" where
  "UpdateOperation opts = Inr \<lparr> op_validate = validate, op_execute = update_execute opts \<rparr>"

definition DeleteOperation :: "'w handler_class" where
  "DeleteOperation opts = Inr \<lparr> op_validate = validate, op_execute = delete_execute opts \<rparr>"

definition CustomOperation :: "'w handler_class" where
  "CustomOperation opts = Inr \<lparr> op_validate = validate, op_execute = custom_execute opts \<rparr>"

text \<open>\<open>register(type, handlerClass)\<close>; a type is a string, and the empty one is refused.\<close>

definition register ::
  "'w registry \<Rightarrow> string \<Rightarrow> 'w handler_class option \<Rightarrow> thrown + 'w registry" where
  "register handlers type handlerClass =
     (if type = [] then Inl (Error ''Operation type must be a string'')
      else case handlerClass of
             None \<Rightarrow> Inl (Error ''Handler class is required'')
           | Some h \<Rightarrow> Inr (handlers(type \<mapsto> h)))"

definition getHandler :: "'w registry \<Rightarrow> string \<Rightarrow> thrown + 'w handler_class" where
  "getHandler handlers type =
     (case handlers type of
        None \<Rightarrow> Inl (Error (''No handler registered for operation type: '' @ type))
      | Some h \<Rightarrow> Inr h)"

definition hasHandler :: "'w registry \<Rightarrow> string \<Rightarrow> bool" where
  "hasHandler handlers type = (handlers type \<noteq> None)"

text \<open>The registry after the four \<open>register\<close> calls the module makes when it is loaded.\<close>

definition standard_handlers :: "'w registry" where
  "standard_handlers =
     [''create'' \<mapsto> CreateOperation, ''update'' \<mapsto> UpdateOperation,
      ''delete'' \<mapsto> DeleteOperation, ''custom'' \<mapsto> CustomOperation]"

section \<open>Retry with backoff\<close>

text \<open>
  \<open>Math.random() * 0.3 + 0.85\<close> and the delay \<open>delay * Math.pow(1.5, attempt - 1) * jitter\<close>
  computed from it. \<open>r\<close> is the value \<open>Math.random()\<close> returned. The numbers are reals
  and \<open>fl\<close> is the rounding applied to every literal and to the result of every
  operation: for JavaScript's doubles the rounding to the nearest double (\<open>binary64\<close>
  below), for exact arithmetic the identity. \<open>Math.pow\<close> is taken to return the rounded power; overflow is
  not part of the model.
\<close>

definition jitter :: "(real \<Rightarrow> real) \<Rightarrow> real \<Rightarrow> real" where
  "jitter fl r = fl (fl (r * fl 0.3) + fl 0.85)"

definition backoffDelay :: "(real \<Rightarrow> real) \<Rightarrow> real \<Rightarrow> nat \<Rightarrow> real \<Rightarrow> real" where
  "backoffDelay fl delay attempt r =
     fl (fl (delay * fl (fl 1.5 ^ (attempt - 1))) * jitter fl r)"

text \<open>
  The loop of \<open>_executeWithRetry\<close> from \<open>attempt\<close> on. \<open>fn\<close> acts on the world; \<open>rnd k\<close> is
  what \<open>Math.random()\<close> returns after attempt \<open>k\<close> has failed; the delays handed to
  \<open>setTimeout\<close> are collected in order. When the attempts are used up the function
  throws \<open>lastError\<close> (\<open>Inl\<close>).
\<close>

function retry_from ::
  "('w \<Rightarrow> (thrown + 'a) \<times> 'w) \<Rightarrow> nat \<Rightarrow> real \<Rightarrow> (real \<Rightarrow> real) \<Rightarrow> (nat \<Rightarrow> real) \<Rightarrow> nat \<Rightarrow>
     thrown \<Rightarrow> real list \<Rightarrow> 'w \<Rightarrow> (thrown + 'a) \<times> real list \<times> 'w" where
  "retry_from fn maxAttempts delay fl rnd attempt lastError slept w =
     (if attempt \<le> maxAttempts then
        (case fn w of
           (Inr v, w1) \<Rightarrow> (Inr v, slept, w1)
         | (Inl error, w1) \<Rightarrow>
             retry_from fn maxAttempts delay fl rnd (Suc attempt) error
               (if attempt < maxAttempts
                then slept @ [backoffDelay fl delay attempt (rnd attempt)] else slept)
               w1)
      else (Inl lastError, slept, w))"
  by pat_completeness auto
termination
  by (relation "measure (\<lambda>(fn, maxAttempts, delay, fl, rnd, attempt, lastError, slept, w).
                            Suc maxAttempts - attempt)") auto

declare retry_from.simps [simp del]

text \<open>\<open>_executeWithRetry(fn, maxAttempts, delay)\<close>; \<open>lastError\<close> starts as \<open>undefined\<close>.\<close>

definition executeWithRetry ::
  "('w \<Rightarrow> (thrown + 'a) \<times> 'w) \<Rightarrow> nat \<Rightarrow> real \<Rightarrow> (real \<Rightarrow> real) \<Rightarrow> (nat \<Rightarrow> real) \<Rightarrow> 'w \<Rightarrow>
     (thrown + 'a) \<times> real list \<times> 'w" where
  "executeWithRetry fn maxAttempts delay fl rnd w =
     retry_from fn maxAttempts delay fl rnd 1 ThrownUndefined [] w"

section \<open>The batch scheduler\<close>

text \<open>
  The loop of \<open>execute\<close> that slices the items into batches, from index \<open>i\<close> on, for a
  batch size that is a number. \<open>items.slice(i, i + batchSize)\<close> is
  \<open>take batchSize (drop i items)\<close>. With a batch size that is not positive the loop does
  not end.
\<close>

partial_function (option) make_batches ::
  "nat \<Rightarrow> jsval list \<Rightarrow> nat \<Rightarrow> jsval list list \<Rightarrow> jsval list list option" where
  "make_batches bsize items i batches =
     (if i < length items
      then make_batches bsize items (i + bsize) (batches @ [take bsize (drop i items)])
      else Some batches)"

declare make_batches.simps [code]

text \<open>
  The same loop for any batch size. With \<open>NaN\<close> its first round pushes
  \<open>items.slice(0, NaN)\<close>, which is empty, and sets \<open>i\<close> to \<open>NaN\<close>, which ends the loop.
\<close>

definition slice_items :: "count \<Rightarrow> jsval list \<Rightarrow> jsval list list option" where
  "slice_items bsize items =
     (case bsize of
        Count b \<Rightarrow> make_batches b items 0 []
      | NotANumber \<Rightarrow> Some (if 0 < length items then [[]] else []))"

text \<open>
  The state of \<open>_processBatchesInParallel\<close>: the results array (\<open>None\<close> is a slot not
  written yet), the counters \<open>active\<close> and \<open>nextBatchIndex\<close>, the batch tasks started and
  not settled yet, and the world.
\<close>

record 'w sched =
  results :: "item_result list option list"
  active :: nat
  nextBatchIndex :: nat
  pending :: "nat list"
  world :: 'w

text \<open>\<open>batch.map(item => ({ success: false, error: error.message, item }))\<close>\<close>

definition batch_failure :: "string option \<Rightarrow> jsval list \<Rightarrow> item_result list" where
  "batch_failure msg batch =
     map (\<lambda>item. \<lparr> r_success = False, r_result = None, r_error = msg, r_id = None,
                   r_item = item \<rparr>) batch"

text \<open>
  One batch task, \<open>processBatch(batchIndex)\<close>, run as a whole when it settles. It is
  started only with an index below the number of batches. The catch block reads
  \<open>error.message\<close> first; when \<open>_executeWithRetry\<close> has thrown \<open>null\<close> or \<open>undefined\<close> that
  read throws, the task rejects, the slot stays unwritten and \<open>active\<close> is not
  decremented.
\<close>

definition processBatch ::
  "'w operation \<Rightarrow> jsval list list \<Rightarrow> 'w options \<Rightarrow> (real \<Rightarrow> real) \<Rightarrow> (nat \<Rightarrow> nat \<Rightarrow> real) \<Rightarrow>
     nat \<Rightarrow> 'w sched \<Rightarrow> 'w sched" where
  "processBatch operation batches opts fl rnd batchIndex s =
     (let batch = batches ! batchIndex in
      case executeWithRetry (op_execute operation batch) (retryAttempts opts) (retryDelay opts)
             fl (rnd batchIndex) (world s) of
        (Inr batchResults, slept, w1) \<Rightarrow>
          s\<lparr> results := (results s)[batchIndex := Some batchResults],
             active := active s - 1, world := w1 \<rparr>
      | (Inl error, slept, w1) \<Rightarrow>
          (case message_of error of
             Inl typeError \<Rightarrow> s\<lparr> world := w1 \<rparr>
           | Inr msg \<Rightarrow>
               s\<lparr> results := (results s)[batchIndex := Some (batch_failure msg batch)],
                  active := active s - 1, world := w1 \<rparr>))"

text \<open>
  The inner loop: start batches while fewer than \<open>maxConcurrent\<close> are active and
  batches remain.
\<close>

function start_batches :: "nat \<Rightarrow> nat \<Rightarrow> 'w sched \<Rightarrow> 'w sched" where
  "start_batches maxC n s =
     (if active s < maxC \<and> nextBatchIndex s < n
      then start_batches maxC n
             (s\<lparr> nextBatchIndex := Suc (nextBatchIndex s), active := Suc (active s),
                 pending := pending s @ [nextBatchIndex s] \<rparr>)
      else s)"
  by pat_completeness auto
termination
  by (relation "measure (\<lambda>(maxC, n, s). n - nextBatchIndex s)") auto

declare start_batches.simps [simp del]

text \<open>
  What happens during one 10 ms wait of the outer loop: one of the started tasks
  settles, the one the completion order \<open>choice\<close> picks among those pending.
\<close>

definition settle ::
  "'w operation \<Rightarrow> jsval list list \<Rightarrow> 'w options \<Rightarrow> (real \<Rightarrow> real) \<Rightarrow> (nat \<Rightarrow> nat \<Rightarrow> real) \<Rightarrow>
     nat \<Rightarrow> 'w sched \<Rightarrow> 'w sched" where
  "settle operation batches opts fl rnd choice s =
     (if pending s = [] then s
      else
        let k = choice mod length (pending s) in
        processBatch operation batches opts fl rnd (pending s ! k)
          (s\<lparr> pending := take k (pending s) @ drop (Suc k) (pending s) \<rparr>))"

text \<open>
  The outer loop, at its \<open>t\<close>-th wait. \<open>order t\<close> decides which pending task settles
  during that wait, so \<open>order\<close> ranges over the orders in which batches can complete.
  The loop does not end when nothing can start and nothing settles.
\<close>

partial_function (option) admission_loop ::
  "'w operation \<Rightarrow> jsval list list \<Rightarrow> 'w options \<Rightarrow> (nat \<Rightarrow> nat) \<Rightarrow> (real \<Rightarrow> real) \<Rightarrow>
     (nat \<Rightarrow> nat \<Rightarrow> real) \<Rightarrow> nat \<Rightarrow> 'w sched \<Rightarrow> 'w sched option" where
  "admission_loop operation batches opts order fl rnd t s =
     (if nextBatchIndex s < length batches \<or> active s > 0
      then admission_loop operation batches opts order fl rnd (Suc t)
             (settle operation batches opts fl rnd (order t)
                (start_batches (maxConcurrent opts) (length batches) s))
      else Some s)"

declare admission_loop.simps [code]

definition processBatchesInParallel ::
  "'w operation \<Rightarrow> jsval list list \<Rightarrow> 'w options \<Rightarrow> (nat \<Rightarrow> nat) \<Rightarrow> (real \<Rightarrow> real) \<Rightarrow>
     (nat \<Rightarrow> nat \<Rightarrow> real) \<Rightarrow> 'w \<Rightarrow> (item_result list option list \<times> 'w) option" where
  "processBatchesInParallel operation batches opts order fl rnd w =
     (case admission_loop operation batches opts order fl rnd 0
             \<lparr> results = replicate (length batches) None, active = 0, nextBatchIndex = 0,
               pending = [], world = w \<rparr> of
        None \<Rightarrow> None
      | Some s \<Rightarrow> Some (results s, world s))"

text \<open>\<open>batchResults.flat()\<close>: the written slots, concatenated in index order.\<close>

definition flat :: "item_result list option list \<Rightarrow> item_result list" where
  "flat rs = concat (map (\<lambda>r. case r of None \<Rightarrow> [] | Some b \<Rightarrow> b) rs)"

section \<open>The summary of a call\<close>

text \<open>
  The summary object. The rates and the timing fields (\<open>successRate\<close>, \<open>duration\<close>,
  \<open>itemsPerSecond\<close>) are floating-point values of the clock and are left out. Event
  listeners are not part of the model: it describes an instance on which none has been
  registered.
\<close>

record summary =
  s_success :: bool
  s_error :: "string option"
  s_message :: "string option"
  s_operations :: nat
  s_succeeded :: nat
  s_failed :: nat
  s_results :: "item_result list option"

definition disabled_summary :: summary where
  "disabled_summary =
     \<lparr> s_success = False, s_error = Some ''Batch operations are disabled'', s_message = None,
       s_operations = 0, s_succeeded = 0, s_failed = 0, s_results = None \<rparr>"

definition nothing_summary :: "string \<Rightarrow> summary" where
  "nothing_summary msg =
     \<lparr> s_success = True, s_error = None, s_message = Some msg,
       s_operations = 0, s_succeeded = 0, s_failed = 0, s_results = None \<rparr>"

text \<open>
  The summary a catch block returns, for the value of \<open>error.message\<close> and the number of
  inputs.
\<close>

definition error_summary :: "string option \<Rightarrow> nat \<Rightarrow> summary" where
  "error_summary msg n =
     \<lparr> s_success = False, s_error = msg, s_message = None,
       s_operations = 0, s_succeeded = 0, s_failed = n, s_results = None \<rparr>"

definition result_summary :: "item_result list \<Rightarrow> summary" where
  "result_summary combinedResults =
     \<lparr> s_success = True, s_error = None, s_message = None,
       s_operations = length combinedResults,
       s_succeeded = length (filter (\<lambda>r. r_success r) combinedResults),
       s_failed = length (filter (\<lambda>r. \<not> r_success r) combinedResults),
       s_results = Some combinedResults \<rparr>"

text \<open>
  The catch block of \<open>execute\<close>, for the value caught and \<open>items.length\<close>. It reads
  \<open>error.message\<close>; for \<open>null\<close> and \<open>undefined\<close> that read throws a TypeError, with which
  the promise \<open>execute\<close> returned rejects (\<open>Inl\<close> carries the message of the error a
  rejection brings).
\<close>

definition execute_catch :: "thrown \<Rightarrow> nat \<Rightarrow> string + summary" where
  "execute_catch error n =
     (case message_of error of
        Inl typeError \<Rightarrow> Inl typeError
      | Inr msg \<Rightarrow> Inr (error_summary msg n))"

section \<open>\<open>BatchOperations.execute\<close>\<close>

text \<open>
  How far \<open>execute\<close> gets before it first waits: either it has settled, with a rejection
  (\<open>Inl\<close>) or a summary, or it has a handler, the batches and the merged options and
  goes on to \<open>_processBatchesInParallel\<close>.
\<close>

datatype 'w started =
    Settled "string + summary"
  | Scheduled "'w operation" "jsval list list" "'w options"

text \<open>
  \<open>execute(operationType, items, options)\<close> on an instance with configuration \<open>config\<close>,
  up to the call of \<open>_processBatchesInParallel\<close>. The value is \<open>None\<close> when the slicing
  loop does not end.
\<close>

definition execute_start ::
  "'w registry \<Rightarrow> 'w options \<Rightarrow> string \<Rightarrow> jsval list \<Rightarrow> 'w overrides \<Rightarrow> 'w started option" where
  "execute_start handlers config operationType items opts =
     (if \<not> enabled config then Some (Settled (Inr disabled_summary))
      else if \<not> hasHandler handlers operationType
      then Some (Settled (Inl (''Unknown operation type: '' @ operationType)))
      else if length items = 0
      then Some (Settled (Inr (nothing_summary ''No items to process'')))
      else
        let mergedOptions = merge config opts in
        case getHandler handlers operationType of
          Inl error \<Rightarrow> Some (Settled (execute_catch error (length items)))
        | Inr HandlerClass \<Rightarrow>
            (case HandlerClass mergedOptions of
               Inl error \<Rightarrow> Some (Settled (execute_catch error (length items)))
             | Inr operation \<Rightarrow>
                 (case op_validate operation items of
                    Inl error \<Rightarrow> Some (Settled (execute_catch error (length items)))
                  | Inr False \<Rightarrow>
                      Some (Settled (execute_catch (Error ''Items validation failed'')
                                       (length items)))
                  | Inr True \<Rightarrow>
                      (case slice_items (batchSize mergedOptions) items of
                         None \<Rightarrow> None
                       | Some batches \<Rightarrow> Some (Scheduled operation batches mergedOptions)))))"

text \<open>
  The rest of \<open>execute\<close>: the batches are processed, the results combined and counted,
  and with profiling on the metrics are recorded, inside the \<open>try\<close> block. The value
  is \<open>None\<close> when the call never settles, \<open>Inl msg\<close> when the promise rejects with an error
  of that message, and \<open>Inr\<close> the summary it resolves with.
\<close>

definition execute_finish ::
  "'w options \<Rightarrow> (nat \<Rightarrow> nat) \<Rightarrow> (real \<Rightarrow> real) \<Rightarrow> (nat \<Rightarrow> nat \<Rightarrow> real) \<Rightarrow> string \<Rightarrow> jsval list \<Rightarrow>
     'w started \<Rightarrow> 'w \<Rightarrow> ((string + summary) \<times> 'w) option" where
  "execute_finish config order fl rnd operationType items st w =
     (case st of
        Settled outcome \<Rightarrow> Some (outcome, w)
      | Scheduled operation batches mergedOptions \<Rightarrow>
          (case processBatchesInParallel operation batches mergedOptions order fl rnd w of
             None \<Rightarrow> None
           | Some (batchResults, w1) \<Rightarrow>
               let combinedResults = flat batchResults;
                   successCount = length (filter (\<lambda>r. r_success r) combinedResults);
                   failureCount = length (filter (\<lambda>r. \<not> r_success r) combinedResults)
               in if profiling config
                  then
                    (case metricsCollector config
                            \<lparr> m_operation = ''batch_'' @ operationType,
                              m_success = (failureCount = 0), m_total = length items,
                              m_successCount = successCount,
                              m_failureCount = failureCount \<rparr> w1 of
                       (Some error, w2) \<Rightarrow> Some (execute_catch error (length items), w2)
                     | (None, w2) \<Rightarrow> Some (Inr (result_summary combinedResults), w2))
                  else Some (Inr (result_summary combinedResults), w1)))"

definition execute ::
  "'w registry \<Rightarrow> 'w options \<Rightarrow> (nat \<Rightarrow> nat) \<Rightarrow> (real \<Rightarrow> real) \<Rightarrow> (nat \<Rightarrow> nat \<Rightarrow> real) \<Rightarrow>
     string \<Rightarrow> jsval list \<Rightarrow> 'w overrides \<Rightarrow> 'w \<Rightarrow> ((string + summary) \<times> 'w) option" where
  "execute handlers config order fl rnd operationType items opts w =
     (case execute_start handlers config operationType items opts of
        None \<Rightarrow> None
      | Some st \<Rightarrow> execute_finish config order fl rnd operationType items st w)"

section \<open>Mixed batches\<close>

text \<open>
  An operation descriptor \<open>{type, data}\<close>; the type is a string or is absent.
\<close>

record descriptor =
  op_type :: "string option"
  op_data :: jsval

text \<open>
  \<open>operationsByType\<close> is a \<open>Map\<close>: its entries in insertion order. The two steps of the
  grouping loop's body: add an entry with no items for a type seen for the first time,
  then push the data onto the type's list.
\<close>

definition push_data :: "string \<Rightarrow> jsval \<Rightarrow> (string \<times> jsval list) list \<Rightarrow> (string \<times> jsval list) list" where
  "push_data t d byType =
     map (\<lambda>(k, v). if k = t then (k, v @ [d]) else (k, v))
       (if map_of byType t = None then byType @ [(t, [])] else byType)"

fun group_operations ::
  "descriptor list \<Rightarrow> (string \<times> jsval list) list \<Rightarrow> thrown + (string \<times> jsval list) list" where
  "group_operations [] byType = Inr byType"
| "group_operations (d # ds) byType =
     (case op_type d of
        None \<Rightarrow> Inl (Error ''Each operation must have a type and data'')
      | Some t \<Rightarrow>
          if t = [] \<or> \<not> truthy (op_data d)
          then Inl (Error ''Each operation must have a type and data'')
          else group_operations ds (push_data t (op_data d) byType))"

definition no_overrides :: "'w overrides" where
  "no_overrides =
     \<lparr> o_maxConcurrent = None, o_batchSize = None, o_retryAttempts = None, o_retryDelay = None,
       o_repository = None, o_validateItem = None, o_idField = None, o_processor = None \<rparr>"

text \<open>The options \<open>batchProcess\<close> hands to \<open>execute\<close> for one type.\<close>

definition options_for ::
  "'w options \<Rightarrow> (string \<Rightarrow> 'w overrides option) \<Rightarrow> string \<Rightarrow> 'w overrides" where
  "options_for mergedOptions typeOptions t =
     override (as_overrides mergedOptions)
       (case typeOptions t of None \<Rightarrow> no_overrides | Some ov \<Rightarrow> ov)"

text \<open>
  \<open>Array.from(operationsByType.entries()).map(async ([type, items]) => ...)\<close>: the calls
  of \<open>execute\<close> are made one after the other in the map's order, each running until it
  first waits. The value is \<open>None\<close> when one of them does not get that far.
\<close>

fun start_types ::
  "'w registry \<Rightarrow> 'w options \<Rightarrow> 'w options \<Rightarrow> (string \<Rightarrow> 'w overrides option) \<Rightarrow>
     (string \<times> jsval list) list \<Rightarrow> (string \<times> jsval list \<times> 'w started) list option" where
  "start_types handlers config mergedOptions typeOptions [] = Some []"
| "start_types handlers config mergedOptions typeOptions ((t, items) # rest) =
     (case execute_start handlers config t items (options_for mergedOptions typeOptions t) of
        None \<Rightarrow> None
      | Some st \<Rightarrow>
          (case start_types handlers config mergedOptions typeOptions rest of
             None \<Rightarrow> None
           | Some jobs \<Rightarrow> Some ((t, items, st) # jobs)))"

fun is_settled :: "'w started \<Rightarrow> bool" where
  "is_settled (Settled outcome) = True"
| "is_settled (Scheduled operation batches mergedOptions) = False"

text \<open>
  The calls complete one at a time. \<open>completion k\<close> decides which of the calls still
  running is the \<open>k\<close>-th to complete, so \<open>completion\<close> ranges over the orders in which
  they can; \<open>order t\<close> and \<open>rnd t\<close> are the completion order of the batches and the random
  numbers of the call for type \<open>t\<close>. The batches of a call act on the world when the
  call completes. A completed call's continuation sets \<open>results[type]\<close> and pushes the
  call's item results; \<open>typeResults\<close> lists the properties of \<open>results\<close> in the order they
  were set. The first rejection rejects \<open>Promise.all\<close> (\<open>Inl\<close>). A call that never
  settles is dropped from those running and remembered in \<open>hung\<close>: unless another call
  rejects, \<open>Promise.all\<close> never settles (\<open>None\<close>).
\<close>

function finish_types ::
  "'w options \<Rightarrow> (string \<Rightarrow> nat \<Rightarrow> nat) \<Rightarrow> (real \<Rightarrow> real) \<Rightarrow> (string \<Rightarrow> nat \<Rightarrow> nat \<Rightarrow> real) \<Rightarrow>
     (nat \<Rightarrow> nat) \<Rightarrow> nat \<Rightarrow> (string \<times> jsval list \<times> 'w started) list \<Rightarrow> bool \<Rightarrow>
     (string \<times> summary) list \<Rightarrow> item_result list \<Rightarrow> 'w \<Rightarrow>
     ((string + (string \<times> summary) list \<times> item_result list) \<times> 'w) option" where
  "finish_types config order fl rnd completion k running hung typeResults allResults w =
     (if running = [] then (if hung then None else Some (Inr (typeResults, allResults), w))
      else
        let i = completion k mod length running;
            rest = take i running @ drop (Suc i) running
        in case running ! i of (t, items, st) \<Rightarrow>
             (case execute_finish config (order t) fl (rnd t) t items st w of
                None \<Rightarrow>
                  finish_types config order fl rnd completion (Suc k) rest True
                    typeResults allResults w
              | Some (Inl msg, w1) \<Rightarrow> Some (Inl msg, w1)
              | Some (Inr opResult, w1) \<Rightarrow>
                  finish_types config order fl rnd completion (Suc k) rest hung
                    (typeResults @ [(t, opResult)])
                    (allResults @ (case s_results opResult of None \<Rightarrow> [] | Some rs \<Rightarrow> rs))
                    w1))"
  by pat_completeness auto
termination
proof (relation "measure (\<lambda>(config, order, fl, rnd, completion, k, running, hung, typeResults,
                            allResults, w). length running)", goal_cases)
  case 1
  show ?case by simp
next
  case (2 config order fl rnd completion k running hung typeResults allResults w)
  then have "completion k mod length running < length running" by simp
  then have "completion k mod length running
               + (length running - Suc (completion k mod length running)) < length running"
    by linarith
  with 2 show ?case by simp
next
  case (3 config order fl rnd completion k running hung typeResults allResults w)
  then have "completion k mod length running < length running" by simp
  then have "completion k mod length running
               + (length running - Suc (completion k mod length running)) < length running"
    by linarith
  with 3 show ?case by simp
qed

declare finish_types.simps [simp del]

text \<open>The calls in the order of the map that have settled at once, and the others.\<close>

definition settled_jobs ::
  "(string \<times> jsval list \<times> 'w started) list \<Rightarrow> (string \<times> jsval list \<times> 'w started) list" where
  "settled_jobs jobs = filter (\<lambda>(t, items, st). is_settled st) jobs"

definition scheduled_jobs ::
  "(string \<times> jsval list \<times> 'w started) list \<Rightarrow> (string \<times> jsval list \<times> 'w started) list" where
  "scheduled_jobs jobs = filter (\<lambda>(t, items, st). \<not> is_settled st) jobs"

definition map_order :: "nat \<Rightarrow> nat" where
  "map_order k = 0"

text \<open>
  \<open>await Promise.all(promises)\<close>: the calls that settled at once complete first, in the
  order of the map, then the others in the order \<open>completion\<close> gives.
\<close>

definition run_types ::
  "'w options \<Rightarrow> (string \<Rightarrow> nat \<Rightarrow> nat) \<Rightarrow> (real \<Rightarrow> real) \<Rightarrow> (string \<Rightarrow> nat \<Rightarrow> nat \<Rightarrow> real) \<Rightarrow>
     (nat \<Rightarrow> nat) \<Rightarrow> (string \<times> jsval list \<times> 'w started) list \<Rightarrow> 'w \<Rightarrow>
     ((string + (string \<times> summary) list \<times> item_result list) \<times> 'w) option" where
  "run_types config order fl rnd completion jobs w =
     (case finish_types config order fl rnd map_order 0 (settled_jobs jobs) False [] [] w of
        None \<Rightarrow> None
      | Some (Inl msg, w1) \<Rightarrow> Some (Inl msg, w1)
      | Some (Inr (typeResults, allResults), w1) \<Rightarrow>
          finish_types config order fl rnd completion 0 (scheduled_jobs jobs) False
            typeResults allResults w1)"

record mixed_summary = summary +
  s_typeResults :: "(string \<times> summary) list option"

definition mixed :: "summary \<Rightarrow> (string \<times> summary) list option \<Rightarrow> mixed_summary" where
  "mixed s tr =
     \<lparr> s_success = s_success s, s_error = s_error s, s_message = s_message s,
       s_operations = s_operations s, s_succeeded = s_succeeded s, s_failed = s_failed s,
       s_results = s_results s, s_typeResults = tr \<rparr>"

text \<open>The catch block of \<open>batchProcess\<close>, for the value caught and \<open>operations.length\<close>.\<close>

definition batchProcess_catch :: "thrown \<Rightarrow> nat \<Rightarrow> string + mixed_summary" where
  "batchProcess_catch error n =
     (case message_of error of
        Inl typeError \<Rightarrow> Inl typeError
      | Inr msg \<Rightarrow> Inr (mixed (error_summary msg n) None))"

text \<open>
  \<open>BatchOperations.batchProcess(operations, options)\<close>; \<open>typeOptions t\<close> is \<open>options[t]\<close>.
  The value is \<open>None\<close> when the call never settles, \<open>Inl msg\<close> when the promise rejects
  with an error of that message, and \<open>Inr\<close> the summary it resolves with.
\<close>

definition batchProcess ::
  "'w registry \<Rightarrow> 'w options \<Rightarrow> (string \<Rightarrow> nat \<Rightarrow> nat) \<Rightarrow> (real \<Rightarrow> real) \<Rightarrow>
     (string \<Rightarrow> nat \<Rightarrow> nat \<Rightarrow> real) \<Rightarrow> (nat \<Rightarrow> nat) \<Rightarrow> descriptor list \<Rightarrow> 'w overrides \<Rightarrow>
     (string \<Rightarrow> 'w overrides option) \<Rightarrow> 'w \<Rightarrow> ((string + mixed_summary) \<times> 'w) option" where
  "batchProcess handlers config order fl rnd completion operations opts typeOptions w =
     (if \<not> enabled config then Some (Inr (mixed disabled_summary None), w)
      else if length operations = 0
      then Some (Inr (mixed (nothing_summary ''No operations to process'') None), w)
      else
        let mergedOptions = merge config opts in
        case group_operations operations [] of
          Inl error \<Rightarrow> Some (batchProcess_catch error (length operations), w)
        | Inr operationsByType \<Rightarrow>
            (case start_types handlers config mergedOptions typeOptions operationsByType of
               None \<Rightarrow> None
             | Some jobs \<Rightarrow>
                 (case run_types config order fl rnd completion jobs w of
                    None \<Rightarrow> None
                  | Some (Inl msg, w1) \<Rightarrow>
                      Some (batchProcess_catch (Error msg) (length operations), w1)
                  | Some (Inr (typeResults, allResults), w1) \<Rightarrow>
                      let totalOperations = length allResults;
                          successCount = length (filter (\<lambda>r. r_success r) allResults);
                          failureCount = totalOperations - successCount;
                          summary = \<lparr> s_success = True, s_error = None, s_message = None,
                                      s_operations = totalOperations,
                                      s_succeeded = successCount, s_failed = failureCount,
                                      s_results = Some allResults,
                                      s_typeResults = Some typeResults \<rparr>
                      in if profiling config
                         then
                           (case metricsCollector config
                                   \<lparr> m_operation = ''batch_mixed'',
                                     m_success = (failureCount = 0),
                                     m_total = totalOperations,
                                     m_successCount = successCount,
                                     m_failureCount = failureCount \<rparr> w1 of
                              (Some error, w2) \<Rightarrow>
                                Some (batchProcess_catch error (length operations), w2)
                            | (None, w2) \<Rightarrow> Some (Inr summary, w2))
                         else Some (Inr summary, w1))))"

section \<open>Instrumentation and example inputs\<close>

text \<open>A function on the world together with a count of its invocations.\<close>

definition counted :: "('w \<Rightarrow> 'r \<times> 'w) \<Rightarrow> nat \<times> 'w \<Rightarrow> 'r \<times> nat \<times> 'w" where
  "counted fn = (\<lambda>(c, w). case fn w of (r, w1) \<Rightarrow> (r, Suc c, w1))"

text \<open>
  The collector \<open>new MetricsCollector()\<close>: its \<open>recordOperationMetrics\<close> catches what
  goes wrong inside it; what it records is not part of the world.
\<close>

definition MetricsCollector :: "'w collector" where
  "MetricsCollector m w = (None, w)"

text \<open>
  \<open>BATCH_OPERATIONS_CONFIG\<close> when no environment variable is set, as the configuration
  of an instance constructed without options.
\<close>

definition BATCH_OPERATIONS_CONFIG :: "'w options" where
  "BATCH_OPERATIONS_CONFIG =
     \<lparr> enabled = True, maxConcurrent = 5, batchSize = Count 50, retryAttempts = 3,
       retryDelay = 1000, repository = None, validateItem = None, idField = None,
       processor = None, profiling = False, metricsCollector = MetricsCollector \<rparr>"

text \<open>
  A task store and a processor whose world is the number of calls made to them.
  \<open>create\<close> throws an \<open>Error\<close> for the item \<open>null\<close> and the string \<open>'full'\<close> for the item
  \<open>false\<close>; \<open>update\<close>, \<open>delete\<close> and the processor throw an \<open>Error\<close> for \<open>2\<close>.
\<close>

definition counting_repository :: "nat repository" where
  "counting_repository =
     \<lparr> repo_create = Some (\<lambda>item w.
                        (if item = JNull then Inl (Error ''create failed'')
                         else if item = JBool False then Inl NoMessage
                         else Inr item, Suc w)),
       repo_update = Some (\<lambda>ident item w.
                        (if ident = JNum 2 then Inl (Error ''update failed'') else Inr item,
                         Suc w)),
       repo_delete = Some (\<lambda>ident w.
                        (if ident = JNum 2 then Inl (Error ''delete failed'')
                         else Inr (JBool True), Suc w)) \<rparr>"

definition counting_processor :: "jsval \<Rightarrow> nat call" where
  "counting_processor item w =
     (if item = JNum 2 then Inl (Error ''processing failed'') else Inr item, Suc w)"

definition example_options :: "nat options" where
  "example_options =
     BATCH_OPERATIONS_CONFIG\<lparr> repository := Some counting_repository,
                              processor := Some counting_processor \<rparr>"

text \<open>A task store whose \<open>create\<close> rejects with \<open>null\<close> for the item \<open>null\<close>.\<close>

definition rejecting_repository :: "nat repository" where
  "rejecting_repository =
     \<lparr> repo_create = Some (\<lambda>item w. (if item = JNull then Inl ThrownNull else Inr item, Suc w)),
       repo_update = None, repo_delete = None \<rparr>"

definition rejecting_options :: "nat options" where
  "rejecting_options = BATCH_OPERATIONS_CONFIG\<lparr> repository := Some rejecting_repository \<rparr>"

definition disabled_config :: "nat options" where
  "disabled_config = BATCH_OPERATIONS_CONFIG\<lparr> enabled := False \<rparr>"

text \<open>The call options \<open>{ batchSize: 2, maxConcurrent: 2, repository }\<close>.\<close>

definition small_batches :: "nat overrides" where
  "small_batches =
     no_overrides\<lparr> o_batchSize := Some (Count 2), o_maxConcurrent := Some 2,
                   o_repository := Some counting_repository \<rparr>"

text \<open>The call options \<open>{ batchSize: NaN, repository }\<close>.\<close>

definition unsized_batches :: "nat overrides" where
  "unsized_batches =
     no_overrides\<lparr> o_batchSize := Some NotANumber, o_repository := Some counting_repository \<rparr>"

text \<open>
  Two completion orders, two sources of random numbers, and a rounding other than the
  identity: to the nearest multiple of \<open>1/1024\<close>.
\<close>

definition oldest_first :: "nat \<Rightarrow> nat" where
  "oldest_first t = 0"

definition second_first :: "nat \<Rightarrow> nat" where
  "second_first t = 1"

definition mid_draw :: "nat \<Rightarrow> nat \<Rightarrow> real" where
  "mid_draw batchIndex attempt = 1 / 2"

definition rising_draw :: "nat \<Rightarrow> nat \<Rightarrow> real" where
  "rising_draw batchIndex attempt = (if attempt = 1 then 0 else 3 / 4)"

definition late_draw :: "nat \<Rightarrow> nat \<Rightarrow> real" where
  "late_draw batchIndex attempt = (if attempt = 1 then 1 / 4 else 3 / 4)"

definition exact :: "real \<Rightarrow> real" where
  "exact x = x"

definition to_1024ths :: "real \<Rightarrow> real" where
  "to_1024ths x = of_int \<lfloor>x * 1024 + 1 / 2\<rfloor> / 1024"

text \<open>
  The rounding of JavaScript's numbers: to the nearest double, ties to the one with an
  even significand. \<open>exponent x\<close> is the exponent of the binade of \<open>x\<close>, found by halving
  a number from \<open>2\<close> on and doubling one below \<open>1\<close>, and not below \<open>-1022\<close>, the exponent
  of the subnormal numbers; the doubles of that binade are the integer multiples of
  \<open>2^(exponent x - 52)\<close>. There is no largest double here: overflow is not part of the
  model.
\<close>

definition round_even :: "real \<Rightarrow> int" where
  "round_even x =
     (let n = \<lfloor>x\<rfloor> in
      if x - of_int n < 1 / 2 then n
      else if 1 / 2 < x - of_int n then n + 1
      else if even n then n else n + 1)"

function exponent_up :: "real \<Rightarrow> int \<Rightarrow> int" where
  "exponent_up x e = (if x < 2 then e else exponent_up (x / 2) (e + 1))"
  by pat_completeness auto
termination
proof (relation "measure (\<lambda>(x, e). nat \<lfloor>x\<rfloor>)", goal_cases)
  case 1
  show ?case by simp
next
  case (2 x e)
  then have "x / 2 \<le> x - 1" by simp
  then have "\<lfloor>x / 2\<rfloor> \<le> \<lfloor>x - 1\<rfloor>" by (rule floor_mono)
  moreover have "2 \<le> \<lfloor>x\<rfloor>" using 2 by (simp add: le_floor_iff)
  ultimately show ?case by simp
qed

declare exponent_up.simps [simp del]

function exponent_down :: "real \<Rightarrow> int \<Rightarrow> int" where
  "exponent_down x e = (if 1 \<le> x \<or> e \<le> - 1022 then e else exponent_down (2 * x) (e - 1))"
  by pat_completeness auto
termination
  by (relation "measure (\<lambda>(x, e). nat (e + 1022))") auto

declare exponent_down.simps [simp del]

definition exponent :: "real \<Rightarrow> int" where
  "exponent x = (if 1 \<le> \<bar>x\<bar> then exponent_up \<bar>x\<bar> 0 else exponent_down \<bar>x\<bar> 0)"

definition binary64 :: "real \<Rightarrow> real" where
  "binary64 x =
     (if x = 0 then 0
      else sgn x * of_int (round_even (\<bar>x\<bar> / 2 powi (exponent x - 52)))
             * 2 powi (exponent x - 52))"

text \<open>
  The class \<open>CustomImportOperation\<close> of the batch operations guide: it does not extend
  \<open>BatchOperation\<close> and has no \<open>validate\<close> method, so that calling it throws a TypeError.
\<close>

definition CustomImportOperation :: "'w handler_class" where
  "CustomImportOperation opts =
     Inr \<lparr> op_validate = (\<lambda>items. Inl (Error ''operation.validate is not a function'')),
           op_execute = (\<lambda>items w. (Inr [], w)) \<rparr>"

text \<open>
  A class whose \<open>validate\<close> does \<open>throw null\<close>, and an operation whose \<open>execute\<close> always
  rejects with \<open>null\<close>, on a world that counts its invocations.
\<close>

definition NullValidateOperation :: "'w handler_class" where
  "NullValidateOperation opts =
     Inr \<lparr> op_validate = (\<lambda>items. Inl ThrownNull),
           op_execute = (\<lambda>items w. (Inr [], w)) \<rparr>"

definition null_rejecting :: "nat operation" where
  "null_rejecting = \<lparr> op_validate = validate, op_execute = (\<lambda>items w. (Inl ThrownNull, Suc w)) \<rparr>"

definition NullRejectingOperation :: "nat handler_class" where
  "NullRejectingOperation opts = Inr null_rejecting"

definition create_without_repository :: "nat operation" where
  "create_without_repository =
     \<lparr> op_validate = validate, op_execute = create_execute BATCH_OPERATIONS_CONFIG \<rparr>"

text \<open>No options given for any single type.\<close>

definition no_type_options :: "string \<Rightarrow> 'w overrides option" where
  "no_type_options t = None"

text \<open>The same completion order and random numbers for the call of every type.\<close>

definition every_type :: "'a \<Rightarrow> string \<Rightarrow> 'a" where
  "every_type x t = x"

text \<open>The items \<open>[{id: 1}, {id: 2}, {id: 3}]\<close>.\<close>

definition three_updates :: "jsval list" where
  "three_updates = [JObj [(''id'', JNum 1)], JObj [(''id'', JNum 2)], JObj [(''id'', JNum 3)]]"

text \<open>
  The registry after the guide's \<open>BatchOperationFactory.register('import', CustomImportOperation)\<close>,
  and after a further \<open>register('strict', NullValidateOperation)\<close>.
\<close>

definition guide_handlers :: "'w registry" where
  "guide_handlers = standard_handlers(''import'' \<mapsto> CustomImportOperation)"

definition strict_handlers :: "'w registry" where
  "strict_handlers = guide_handlers(''strict'' \<mapsto> NullValidateOperation)"

text \<open>The registry after \<open>register('purge', NullRejectingOperation)\<close>.\<close>

definition purge_handlers :: "nat registry" where
  "purge_handlers = standard_handlers(''purge'' \<mapsto> NullRejectingOperation)"

text \<open>
  The descriptors \<open>[{type: 'create', data: {title: 'Task 1'}}, {type: 'delete', data: 5}]\<close>.
\<close>

definition mixed_operations :: "descriptor list" where
  "mixed_operations =
     [\<lparr> op_type = Some ''create'', op_data = JObj [(''title'', JStr ''Task 1'')] \<rparr>,
      \<lparr> op_type = Some ''delete'', op_data = JNum 5 \<rparr>]"

section \<open>Properties of thrown values, of handlers and of the scheduler's state\<close>

text \<open>
  A thrown value has a message (it is an \<open>Error\<close>); its \<open>message\<close> can be read (it is
  neither \<open>null\<close> nor \<open>undefined\<close>).
\<close>

fun has_message :: "thrown \<Rightarrow> bool" where
  "has_message (Error msg) = True"
| "has_message e = False"

fun message_readable :: "thrown \<Rightarrow> bool" where
  "message_readable ThrownNull = False"
| "message_readable ThrownUndefined = False"
| "message_readable e = True"

text \<open>
  A handler yields one result per item: whenever its \<open>execute\<close> returns, the results
  are those of the items of the batch, in their order.
\<close>

definition yields_one_result_per_item :: "'w operation \<Rightarrow> bool" where
  "yields_one_result_per_item operation =
     (\<forall>batch w rs w1. op_execute operation batch w = (Inr rs, w1) \<longrightarrow> map r_item rs = batch)"

text \<open>A handler never rejects with \<open>null\<close> or \<open>undefined\<close>.\<close>

definition rejects_readably :: "'w operation \<Rightarrow> bool" where
  "rejects_readably operation =
     (\<forall>batch w e. fst (op_execute operation batch w) = Inl e \<longrightarrow> message_readable e)"

text \<open>
  The registry and the effective options handle a type: the type's class constructs an
  operation that accepts every non-empty item list, yields one result per item and
  never rejects with \<open>null\<close> or \<open>undefined\<close>, and batch size, concurrency bound and retry
  attempts are positive.
\<close>

definition handles :: "'w registry \<Rightarrow> 'w options \<Rightarrow> string \<Rightarrow> bool" where
  "handles handlers mergedOptions t =
     (\<exists>HandlerClass operation b.
        handlers t = Some HandlerClass \<and> HandlerClass mergedOptions = Inr operation
        \<and> (\<forall>items. items \<noteq> [] \<longrightarrow> op_validate operation items = Inr True)
        \<and> yields_one_result_per_item operation \<and> rejects_readably operation
        \<and> batchSize mergedOptions = Count b \<and> 0 < b \<and> 0 < maxConcurrent mergedOptions
        \<and> 0 < retryAttempts mergedOptions)"

text \<open>With profiling on, the metrics collector of the instance throws nothing.\<close>

definition records_quietly :: "'w options \<Rightarrow> bool" where
  "records_quietly config =
     (profiling config \<longrightarrow> (\<forall>m w. fst (metricsCollector config m w) = None))"

text \<open>
  The order in which the members of a list come out when \<open>completion\<close> picks, at step
  \<open>k\<close>, the next one among those that are left.
\<close>

function completed_in :: "(nat \<Rightarrow> nat) \<Rightarrow> nat \<Rightarrow> 'a list \<Rightarrow> 'a list" where
  "completed_in completion k xs =
     (if xs = [] then []
      else
        let i = completion k mod length xs
        in xs ! i # completed_in completion (Suc k) (take i xs @ drop (Suc i) xs))"
  by pat_completeness auto
termination
proof (relation "measure (\<lambda>(completion, k, xs). length xs)", goal_cases)
  case 1
  show ?case by simp
next
  case (2 completion k xs)
  then have "completion k mod length xs < length xs" by simp
  then have "completion k mod length xs + (length xs - Suc (completion k mod length xs))
               < length xs"
    by linarith
  with 2 show ?case by simp
qed

declare completed_in.simps [simp del]

text \<open>The number of items in all groups of a grouping.\<close>

definition total_items :: "(string \<times> jsval list) list \<Rightarrow> nat" where
  "total_items byType = sum_list (map (\<lambda>(t, items). length items) byType)"

text \<open>
  The invariant of the admission loop for \<open>n\<close> batches: the results array has \<open>n\<close>
  slots, \<open>active\<close> counts the pending tasks, the pending tasks are distinct batches that
  were started, and every started batch that is no longer pending has its slot written
  with results that satisfy \<open>Q\<close>.
\<close>

definition sched_inv :: "(nat \<Rightarrow> item_result list \<Rightarrow> bool) \<Rightarrow> nat \<Rightarrow> 'w sched \<Rightarrow> bool" where
  "sched_inv Q n s =
     (length (results s) = n \<and> nextBatchIndex s \<le> n \<and> active s = length (pending s)
      \<and> distinct (pending s) \<and> set (pending s) \<subseteq> {..<nextBatchIndex s}
      \<and> (\<forall>i<nextBatchIndex s. i \<notin> set (pending s) \<longrightarrow>
            (\<exists>rs. results s ! i = Some rs \<and> Q i rs)))"

section \<open>The handlers' loops\<close>



lemma for_items_echo:
  assumes "\<And>item w r w1. body item w = (Inr r, w1) \<Longrightarrow> r_item r = item"
  shows "for_items body items w = (Inr rs, w1) \<Longrightarrow> map r_item rs = items"
proof (induction items arbitrary: w rs w1)
  case Nil
  then show ?case by simp
next
  case (Cons x xs)
  from Cons.prems obtain r wa rs' where b: "body x w = (Inr r, wa)"
    and f: "for_items body xs wa = (Inr rs', w1)" and rs: "rs = r # rs'"
    by (auto split: prod.splits sum.splits)
  have "r_item r = x" using b by (rule assms)
  moreover have "map r_item rs' = xs" using f by (rule Cons.IH)
  ultimately show ?case using rs by simp
qed

lemma for_items_rejects:
  assumes "\<And>item w e w1. body item w = (Inl e, w1) \<Longrightarrow> P e"
  shows "for_items body items w = (Inl e, w1) \<Longrightarrow> P e"
proof (induction items arbitrary: w)
  case Nil
  then show ?case by simp
next
  case (Cons x xs)
  show ?case
  proof (cases "body x w")
    case (Pair o1 wa)
    show ?thesis
    proof (cases o1)
      case (Inl e')
      with Pair Cons.prems have "e' = e" by simp
      with Pair Inl show ?thesis using assms by blast
    next
      case (Inr r)
      with Pair Cons.prems have "for_items body xs wa = (Inl e, w1)"
        by (auto split: prod.splits sum.splits)
      then show ?thesis by (rule Cons.IH)
    qed
  qed
qed

lemma for_items_runs:
  assumes "\<And>item w. \<exists>r w1. body item w = (Inr r, w1)"
  shows "\<exists>rs w1. for_items body items w = (Inr rs, w1) \<and> length rs = length items"
proof (induction items arbitrary: w)
  case Nil
  show ?case by simp
next
  case (Cons x xs)
  from assms [of x w] obtain r wa where b: "body x w = (Inr r, wa)" by blast
  from Cons.IH [of wa] obtain rs w1 where "for_items body xs wa = (Inr rs, w1)"
    "length rs = length xs" by blast
  with b show ?case by simp
qed

lemma for_items_index:
  assumes run: "for_items body items w = (Inr rs, w1)" and i: "i < length items"
  shows "\<exists>wi wi'. for_items body (take i items) w = (Inr (take i rs), wi)
           \<and> body (items ! i) wi = (Inr (rs ! i), wi')
           \<and> for_items body (take (Suc i) items) w = (Inr (take (Suc i) rs), wi')"
  using run i
proof (induction items arbitrary: w rs i)
  case Nil
  then show ?case by simp
next
  case (Cons x xs)
  from Cons.prems(1) obtain r wa rs' where b: "body x w = (Inr r, wa)"
    and f: "for_items body xs wa = (Inr rs', w1)" and rs: "rs = r # rs'"
    by (auto split: prod.splits sum.splits)
  show ?case
  proof (cases i)
    case 0
    with b rs show ?thesis by simp
  next
    case (Suc j)
    with Cons.prems(2) have "j < length xs" by simp
    from Cons.IH [OF f this] obtain wi wi'
      where "for_items body (take j xs) wa = (Inr (take j rs'), wi)"
        "body (xs ! j) wi = (Inr (rs' ! j), wi')"
        "for_items body (take (Suc j) xs) wa = (Inr (take (Suc j) rs'), wi')"
      by blast
    with b rs Suc show ?thesis by simp
  qed
qed

lemma caught_echo: "caught error item w = (Inr r, w1) \<Longrightarrow> r_item r = item"
  by (auto simp: caught_def handleError_def split: sum.splits)

lemma caught_rejects: "caught error item w = (Inl e, w1) \<Longrightarrow> has_message e"
  by (auto simp: caught_def handleError_def split: sum.splits)

lemma caught_readable:
  "message_of error = Inr msg \<Longrightarrow>
     caught error item w =
       (Inr \<lparr> r_success = False, r_result = None, r_error = msg, r_id = None, r_item = item \<rparr>, w)"
  by (simp add: caught_def handleError_def)

lemma message_readable_iff: "message_readable e \<longleftrightarrow> (\<exists>msg. message_of e = Inr msg)"
  by (cases e) simp_all

lemma has_message_readable: "has_message e \<Longrightarrow> message_readable e"
  by (cases e) simp_all

lemma validation_step_echo:
  "validation_step vi item w = (Inr (Some failed), w1) \<Longrightarrow> r_item failed = item"
  by (auto simp: validation_step_def failed_result_def
      split: option.splits prod.splits sum.splits if_splits)

lemma create_item_echo: "create_item create vi item w = (Inr r, w1) \<Longrightarrow> r_item r = item"
  by (auto simp: create_item_def succeeded_result_def
      split: prod.splits sum.splits option.splits
      dest: validation_step_echo caught_echo)

lemma update_item_echo: "update_item update vi idf item w = (Inr r, w1) \<Longrightarrow> r_item r = item"
  by (auto simp: update_item_def succeeded_result_def failed_result_def
      split: prod.splits sum.splits option.splits if_splits
      dest: validation_step_echo caught_echo)

lemma delete_item_echo: "delete_item delete idf item w = (Inr r, w1) \<Longrightarrow> r_item r = item"
  by (auto simp: delete_item_def succeeded_result_def failed_result_def
      split: prod.splits sum.splits if_splits dest: caught_echo)

lemma custom_item_echo: "custom_item process item w = (Inr r, w1) \<Longrightarrow> r_item r = item"
  by (auto simp: custom_item_def succeeded_result_def
      split: prod.splits sum.splits dest: caught_echo)

lemma create_item_rejects: "create_item create vi item w = (Inl e, w1) \<Longrightarrow> has_message e"
  by (auto simp: create_item_def split: prod.splits sum.splits option.splits
      dest: caught_rejects)

lemma update_item_rejects: "update_item update vi idf item w = (Inl e, w1) \<Longrightarrow> has_message e"
  by (auto simp: update_item_def split: prod.splits sum.splits option.splits if_splits
      dest: caught_rejects)

lemma delete_item_rejects: "delete_item delete idf item w = (Inl e, w1) \<Longrightarrow> has_message e"
  by (auto simp: delete_item_def split: prod.splits sum.splits if_splits
      dest: caught_rejects)

lemma custom_item_rejects: "custom_item process item w = (Inl e, w1) \<Longrightarrow> has_message e"
  by (auto simp: custom_item_def split: prod.splits sum.splits dest: caught_rejects)

lemma create_execute_echo:
  "create_execute opts batch w = (Inr rs, w1) \<Longrightarrow> map r_item rs = batch"
  by (auto simp: create_execute_def split: option.splits
      elim: for_items_echo [rotated] create_item_echo)

lemma update_execute_echo:
  "update_execute opts batch w = (Inr rs, w1) \<Longrightarrow> map r_item rs = batch"
  by (auto simp: update_execute_def split: option.splits
      elim: for_items_echo [rotated] update_item_echo)

lemma delete_execute_echo:
  "delete_execute opts batch w = (Inr rs, w1) \<Longrightarrow> map r_item rs = batch"
  by (auto simp: delete_execute_def split: option.splits
      elim: for_items_echo [rotated] delete_item_echo)

lemma custom_execute_echo:
  "custom_execute opts batch w = (Inr rs, w1) \<Longrightarrow> map r_item rs = batch"
  by (auto simp: custom_execute_def split: option.splits
      elim: for_items_echo [rotated] custom_item_echo)

lemma create_execute_rejects:
  "create_execute opts batch w = (Inl e, w1) \<Longrightarrow> has_message e"
  by (auto simp: create_execute_def split: option.splits
      elim: for_items_rejects [where P = has_message, rotated] create_item_rejects)

lemma update_execute_rejects:
  "update_execute opts batch w = (Inl e, w1) \<Longrightarrow> has_message e"
  by (auto simp: update_execute_def split: option.splits
      elim: for_items_rejects [where P = has_message, rotated] update_item_rejects)

lemma delete_execute_rejects:
  "delete_execute opts batch w = (Inl e, w1) \<Longrightarrow> has_message e"
  by (auto simp: delete_execute_def split: option.splits
      elim: for_items_rejects [where P = has_message, rotated] delete_item_rejects)

lemma custom_execute_rejects:
  "custom_execute opts batch w = (Inl e, w1) \<Longrightarrow> has_message e"
  by (auto simp: custom_execute_def split: option.splits
      elim: for_items_rejects [where P = has_message, rotated] custom_item_rejects)

section \<open>The retry loop\<close>

lemma retry_from_slept:
  "retry_from fn m d fl rnd a le sl w = (r, sl', w') \<Longrightarrow>
     \<exists>e. a \<le> e \<and> e \<le> max a m \<and> sl' = sl @ map (\<lambda>k. backoffDelay fl d k (rnd k)) [a..<e]"
proof (induction "Suc m - a" arbitrary: a le sl w)
  case 0
  then have "\<not> a \<le> m" by simp
  with "0.prems" have "sl' = sl" by (simp add: retry_from.simps [of fn m d fl rnd a])
  then show ?case by (intro exI [of _ a]) simp
next
  case (Suc n)
  then have am: "a \<le> m" by simp
  obtain x w1 where fw: "fn w = (x, w1)" by (cases "fn w")
  show ?case
  proof (cases x)
    case (Inr v)
    with Suc.prems am fw have "sl' = sl" by (simp add: retry_from.simps [of fn m d fl rnd a])
    then show ?thesis by (intro exI [of _ a]) simp
  next
    case (Inl error)
    let ?sl = "if a < m then sl @ [backoffDelay fl d a (rnd a)] else sl"
    from Suc.prems am fw Inl
    have rec: "retry_from fn m d fl rnd (Suc a) error ?sl w1 = (r, sl', w')"
      by (simp add: retry_from.simps [of fn m d fl rnd a])
    have "n = Suc m - Suc a" using Suc.hyps(2) by simp
    from Suc.hyps(1) [OF this rec]
    obtain e where e: "Suc a \<le> e" "e \<le> max (Suc a) m"
      and sl': "sl' = ?sl @ map (\<lambda>k. backoffDelay fl d k (rnd k)) [Suc a..<e]" by blast
    show ?thesis
    proof (cases "a < m")
      case True
      with e sl' have "sl' = sl @ map (\<lambda>k. backoffDelay fl d k (rnd k)) [a..<e]"
        by (simp add: upt_conv_Cons)
      with e True show ?thesis by (intro exI [of _ e]) simp
    next
      case False
      with am have "a = m" by simp
      with e have "e = Suc m" by simp
      with sl' False \<open>a = m\<close> have "sl' = sl" by simp
      then show ?thesis by (intro exI [of _ a]) simp
    qed
  qed
qed

lemma retry_from_throws:
  assumes "\<And>w. isl (fst (fn w))"
  shows "retry_from fn m d fl rnd a le sl w =
     (Inl (if a \<le> m then projl (fst (fn (((\<lambda>w. snd (fn w)) ^^ (m - a)) w))) else le),
      sl @ map (\<lambda>k. backoffDelay fl d k (rnd k)) [a..<m],
      ((\<lambda>w. snd (fn w)) ^^ (Suc m - a)) w)"
proof (induction "Suc m - a" arbitrary: a le sl w)
  case 0
  then have "\<not> a \<le> m" by simp
  then show ?case using 0 by (simp add: retry_from.simps [of fn m d fl rnd a])
next
  case (Suc n)
  then have am: "a \<le> m" by simp
  obtain x w1 where fw: "fn w = (x, w1)" by (cases "fn w")
  from assms [of w] fw obtain error where x: "x = Inl error" by (cases x) auto
  have n: "n = Suc m - Suc a" using Suc.hyps(2) by simp
  have step: "retry_from fn m d fl rnd a le sl w =
      retry_from fn m d fl rnd (Suc a) error
        (if a < m then sl @ [backoffDelay fl d a (rnd a)] else sl) w1"
    using am fw x by (simp add: retry_from.simps [of fn m d fl rnd a])
  have w1: "w1 = snd (fn w)" using fw by simp
  let ?it = "\<lambda>k. (\<lambda>w. snd (fn w)) ^^ k"
  let ?sl = "if a < m then sl @ [backoffDelay fl d a (rnd a)] else sl"
  have ih: "retry_from fn m d fl rnd (Suc a) error ?sl w1 =
     (Inl (if Suc a \<le> m then projl (fst (fn (?it (m - Suc a) w1))) else error),
      ?sl @ map (\<lambda>k. backoffDelay fl d k (rnd k)) [Suc a..<m],
      ?it (Suc m - Suc a) w1)"
    by (rule Suc.hyps(1) [OF n])
  have it: "?it k w1 = ?it (Suc k) w" for k
    unfolding w1 by (induction k) simp_all
  show ?case
  proof (cases "a < m")
    case True
    then have eq: "m - a = Suc (m - Suc a)" "Suc m - a = Suc (Suc m - Suc a)" by simp_all
    have "[a..<m] = a # [Suc a..<m]" using True by (simp add: upt_conv_Cons)
    then show ?thesis
      unfolding step ih it eq using True am by simp
  next
    case False
    with am have "a = m" by simp
    then show ?thesis
      unfolding step ih using x fw by simp
  qed
qed

lemma retry_from_result:
  "retry_from fn m d fl rnd a le sl w = (r, sl', w') \<Longrightarrow>
     (\<exists>v w0 w1. r = Inr v \<and> fn w0 = (Inr v, w1))
       \<or> (\<exists>e w0 w1. r = Inl e \<and> fn w0 = (Inl e, w1))
       \<or> (r = Inl le \<and> m < a)"
proof (induction "Suc m - a" arbitrary: a le sl w)
  case 0
  then have "\<not> a \<le> m" by simp
  with "0.prems" show ?case by (simp add: retry_from.simps [of fn m d fl rnd a])
next
  case (Suc n)
  then have am: "a \<le> m" by simp
  obtain x w1 where fw: "fn w = (x, w1)" by (cases "fn w")
  show ?case
  proof (cases x)
    case (Inr v)
    with Suc.prems am fw have "r = Inr v" by (simp add: retry_from.simps [of fn m d fl rnd a])
    with fw Inr show ?thesis by blast
  next
    case (Inl error)
    let ?sl = "if a < m then sl @ [backoffDelay fl d a (rnd a)] else sl"
    from Suc.prems am fw Inl
    have rec: "retry_from fn m d fl rnd (Suc a) error ?sl w1 = (r, sl', w')"
      by (simp add: retry_from.simps [of fn m d fl rnd a])
    have n: "n = Suc m - Suc a" using Suc.hyps(2) by simp
    from Suc.hyps(1) [OF n rec]
    show ?thesis
    proof (elim disjE)
      assume "r = Inl error \<and> m < Suc a"
      with fw Inl show ?thesis by blast
    qed blast+
  qed
qed

lemma executeWithRetry_result:
  assumes "0 < m" and "executeWithRetry fn m d fl rnd w = (r, sl, w')"
  shows "(\<exists>v w0 w1. r = Inr v \<and> fn w0 = (Inr v, w1))
       \<or> (\<exists>e w0 w1. r = Inl e \<and> fn w0 = (Inl e, w1))"
  using retry_from_result [OF assms(2) [unfolded executeWithRetry_def]] assms(1) by auto

lemma counted_iterate:
  "((\<lambda>cw. snd (counted fn cw)) ^^ k) (c, w) = (c + k, ((\<lambda>w. snd (fn w)) ^^ k) w)"
  by (induction k) (auto simp: counted_def split: prod.splits)

lemma counted_throws: "isl (fst (fn w)) \<Longrightarrow> isl (fst (counted fn (c, w)))"
  by (auto simp: counted_def split: prod.splits)

lemma jitter_bounds:
  assumes mono: "\<And>x y. x \<le> y \<Longrightarrow> fl x \<le> fl y" and idem: "\<And>x. fl (fl x) = fl x"
    and zero: "fl 0 = 0" and r: "0 \<le> r" "r < 1"
  shows "fl 0.85 \<le> jitter fl r \<and> jitter fl r \<le> fl (fl 0.3 + fl 0.85)"
proof
  have c: "0 \<le> fl 0.3" using mono [of 0 "0.3"] zero by simp
  then have "0 \<le> r * fl 0.3" using r by simp
  then have "0 \<le> fl (r * fl 0.3)" using mono [of 0 "r * fl 0.3"] zero by simp
  then have "fl 0.85 \<le> fl (r * fl 0.3) + fl 0.85" by simp
  then have "fl (fl 0.85) \<le> fl (fl (r * fl 0.3) + fl 0.85)" by (rule mono)
  then show "fl 0.85 \<le> jitter fl r" by (simp add: idem jitter_def)
  have "r * fl 0.3 \<le> 1 * fl 0.3" using r c by (intro mult_right_mono) simp_all
  then have "fl (r * fl 0.3) \<le> fl (fl 0.3)" using mono [of "r * fl 0.3" "fl 0.3"] by simp
  then have "fl (r * fl 0.3) + fl 0.85 \<le> fl 0.3 + fl 0.85" by (simp add: idem)
  then show "jitter fl r \<le> fl (fl 0.3 + fl 0.85)" unfolding jitter_def by (rule mono)
qed

lemma backoffDelay_bounds:
  assumes mono: "\<And>x y. x \<le> y \<Longrightarrow> fl x \<le> fl y" and idem: "\<And>x. fl (fl x) = fl x"
    and zero: "fl 0 = 0" and r: "0 \<le> r" "r < 1" and d: "0 \<le> d"
  shows "fl (fl (d * fl (fl 1.5 ^ (k - 1))) * fl 0.85) \<le> backoffDelay fl d k r
       \<and> backoffDelay fl d k r \<le> fl (fl (d * fl (fl 1.5 ^ (k - 1))) * fl (fl 0.3 + fl 0.85))"
proof
  let ?B = "fl (d * fl (fl 1.5 ^ (k - 1)))"
  have "0 \<le> fl 1.5" using mono [of 0 "1.5"] zero by simp
  then have "0 \<le> fl 1.5 ^ (k - 1)" by simp
  then have "0 \<le> fl (fl 1.5 ^ (k - 1))" using mono [of 0 "fl 1.5 ^ (k - 1)"] zero by simp
  then have "0 \<le> d * fl (fl 1.5 ^ (k - 1))" using d by simp
  then have B: "0 \<le> ?B" using mono [of 0 "d * fl (fl 1.5 ^ (k - 1))"] zero by simp
  from jitter_bounds [of fl r, OF mono idem zero r]
  have j: "fl 0.85 \<le> jitter fl r" "jitter fl r \<le> fl (fl 0.3 + fl 0.85)" by simp_all
  have "?B * fl 0.85 \<le> ?B * jitter fl r" using B j(1) by (rule mult_left_mono [rotated])
  then show "fl (?B * fl 0.85) \<le> backoffDelay fl d k r"
    unfolding backoffDelay_def by (rule mono)
  have "?B * jitter fl r \<le> ?B * fl (fl 0.3 + fl 0.85)"
    using B j(2) by (rule mult_left_mono [rotated])
  then show "backoffDelay fl d k r \<le> fl (?B * fl (fl 0.3 + fl 0.85))"
    unfolding backoffDelay_def by (rule mono)
qed

lemma to_1024ths_mono: "x \<le> y \<Longrightarrow> to_1024ths x \<le> to_1024ths y"
proof -
  assume "x \<le> y"
  then have "\<lfloor>x * 1024 + 1 / 2\<rfloor> \<le> \<lfloor>y * 1024 + 1 / 2\<rfloor>" by (intro floor_mono) simp
  then show ?thesis by (simp add: to_1024ths_def divide_right_mono)
qed

lemma to_1024ths_idem: "to_1024ths (to_1024ths x) = to_1024ths x"
proof -
  have "\<lfloor>of_int n + (1 / 2 :: real)\<rfloor> = n" for n :: int
    by (rule floor_unique) simp_all
  then show ?thesis by (simp add: to_1024ths_def)
qed

lemma round_even_int: "round_even (of_int k) = k"
  by (simp add: round_even_def)

lemma round_even_mono: "x \<le> y \<Longrightarrow> round_even x \<le> round_even y"
proof -
  assume xy: "x \<le> y"
  then have f: "\<lfloor>x\<rfloor> \<le> \<lfloor>y\<rfloor>" by (rule floor_mono)
  have a: "round_even x \<le> \<lfloor>x\<rfloor> + 1" "\<lfloor>y\<rfloor> \<le> round_even y"
    by (auto simp: round_even_def Let_def)
  show ?thesis
  proof (cases "\<lfloor>x\<rfloor> = \<lfloor>y\<rfloor>")
    case True
    with xy show ?thesis by (auto simp: round_even_def Let_def)
  next
    case False
    with f have "\<lfloor>x\<rfloor> + 1 \<le> \<lfloor>y\<rfloor>" by simp
    with a show ?thesis by linarith
  qed
qed

lemma exponent_up_log: "1 \<le> x \<Longrightarrow> exponent_up x e = e + \<lfloor>log 2 x\<rfloor>"
proof (induction x e rule: exponent_up.induct)
  case (1 x e)
  show ?case
  proof (cases "x < 2")
    case True
    have "\<lfloor>log 2 x\<rfloor> = 0" using floor_log_eq_powr_iff [of x 2 0] 1(2) True by simp
    with True show ?thesis by (simp add: exponent_up.simps [of x e])
  next
    case False
    then have h: "1 \<le> x / 2" by simp
    have "log 2 (x / 2) = log 2 x - 1" using 1(2) by (simp add: log_divide)
    then have "\<lfloor>log 2 (x / 2)\<rfloor> = \<lfloor>log 2 x\<rfloor> - 1" by simp
    with 1(1) [OF False h] False show ?thesis by (simp add: exponent_up.simps [of x e])
  qed
qed

lemma exponent_down_log:
  "0 < x \<Longrightarrow> x < 2 \<Longrightarrow> - 1022 \<le> e \<Longrightarrow>
     exponent_down x e = max (- 1022) (e + \<lfloor>log 2 x\<rfloor>)"
proof (induction x e rule: exponent_down.induct)
  case (1 x e)
  show ?case
  proof (cases "1 \<le> x")
    case True
    have "\<lfloor>log 2 x\<rfloor> = 0" using floor_log_eq_powr_iff [of x 2 0] 1(3) True by simp
    with True 1(4) show ?thesis by (simp add: exponent_down.simps [of x e])
  next
    case small: False
    then have "log 2 x < 0" using 1(2) by simp
    then have neg: "\<lfloor>log 2 x\<rfloor> < 0" by (simp add: floor_less_iff)
    show ?thesis
    proof (cases "e \<le> - 1022")
      case True
      then have "exponent_down x e = e" by (simp add: exponent_down.simps [of x e])
      with True neg 1(4) show ?thesis by linarith
    next
      case False
      with small have c: "\<not> (1 \<le> x \<or> e \<le> - 1022)" by simp
      have "log 2 (2 * x) = 1 + log 2 x" using 1(2) by (simp add: log_mult)
      then have "\<lfloor>log 2 (2 * x)\<rfloor> = \<lfloor>log 2 x\<rfloor> + 1" by simp
      moreover have "exponent_down (2 * x) (e - 1) = max (- 1022) (e - 1 + \<lfloor>log 2 (2 * x)\<rfloor>)"
        using c 1(2) small False by (intro 1(1)) simp_all
      ultimately show ?thesis using c by (simp add: exponent_down.simps [of x e])
    qed
  qed
qed

lemma exponent_log: "x \<noteq> 0 \<Longrightarrow> exponent x = max (- 1022) \<lfloor>log 2 \<bar>x\<bar>\<rfloor>"
proof (cases "1 \<le> \<bar>x\<bar>")
  case True
  then have "0 \<le> log 2 \<bar>x\<bar>" by simp
  then have "0 \<le> \<lfloor>log 2 \<bar>x\<bar>\<rfloor>" by simp
  moreover have "exponent x = \<lfloor>log 2 \<bar>x\<bar>\<rfloor>"
    using True by (simp add: exponent_def exponent_up_log)
  ultimately show ?thesis by linarith
next
  case False
  assume "x \<noteq> 0"
  with False show ?thesis by (simp add: exponent_def exponent_down_log)
qed

lemma exponent_least: "x \<noteq> 0 \<Longrightarrow> - 1022 \<le> exponent x"
  by (simp add: exponent_log)

lemma exponent_bounds:
  assumes "0 < x"
  shows "x < 2 powr of_int (exponent x + 1)"
    and "- 1022 < exponent x \<Longrightarrow> 2 powr of_int (exponent x) \<le> x"
proof -
  let ?k = "\<lfloor>log 2 x\<rfloor>"
  have k: "2 powr of_int ?k \<le> x \<and> x < 2 powr of_int (?k + 1)"
    using floor_log_eq_powr_iff [of x 2 ?k] assms by simp
  have e: "exponent x = max (- 1022) ?k" using assms by (simp add: exponent_log)
  have "(2::real) powr of_int (?k + 1) \<le> 2 powr of_int (exponent x + 1)"
    unfolding e by (intro powr_mono) simp_all
  with k show "x < 2 powr of_int (exponent x + 1)" by linarith
  show "2 powr of_int (exponent x) \<le> x" if "- 1022 < exponent x"
  proof -
    from that e have "exponent x = ?k" by linarith
    with k show ?thesis by simp
  qed
qed

lemma exponent_mono:
  assumes "0 < x" "x \<le> y"
  shows "exponent x \<le> exponent y"
proof -
  have "log 2 x \<le> log 2 y" using assms by (intro log_mono) simp_all
  then have "\<lfloor>log 2 x\<rfloor> \<le> \<lfloor>log 2 y\<rfloor>" by (rule floor_mono)
  then show ?thesis using assms by (simp add: exponent_log)
qed

lemma exponent_eq:
  assumes "0 < x" "2 powr of_int e \<le> x" "x < 2 powr of_int (e + 1)" "- 1022 \<le> e"
  shows "exponent x = e"
proof -
  have "\<lfloor>log 2 x\<rfloor> = e" using floor_log_eq_powr_iff [of x 2 e] assms by simp
  with assms show ?thesis by (simp add: exponent_log)
qed

lemma two_powr_scale: "(2::real) powr of_int e = 2 ^ n * 2 powr of_int (e - int n)"
proof -
  have "(2::real) powr of_int e = 2 powr (of_nat n + of_int (e - int n))" by simp
  also have "\<dots> = 2 powr of_nat n * 2 powr of_int (e - int n)" by (rule powr_add)
  also have "\<dots> = 2 ^ n * 2 powr of_int (e - int n)" by (simp add: powr_realpow)
  finally show ?thesis .
qed

lemma binary64_pos:
  assumes "0 < x"
  shows "binary64 x = of_int (round_even (x / 2 powr of_int (exponent x - 52)))
                        * 2 powr of_int (exponent x - 52)"
proof -
  have "(2::real) powr of_int n = 2 powi n" for n by (simp add: powr_real_of_int')
  then show ?thesis using assms by (simp only: binary64_def) simp
qed

lemma scaled_bounds:
  assumes "0 < x"
  shows "x / 2 powr of_int (exponent x - 52) < 2 ^ 53"
    and "- 1022 < exponent x \<Longrightarrow> 2 ^ 52 \<le> x / 2 powr of_int (exponent x - 52)"
proof -
  let ?e = "exponent x"
  let ?u = "(2::real) powr of_int (?e - 52)"
  have u: "0 < ?u" by simp
  have hi: "(2::real) powr of_int (?e + 1) = 2 ^ 53 * ?u"
    using two_powr_scale [of "?e + 1" 53] by simp
  have lo: "(2::real) powr of_int ?e = 2 ^ 52 * ?u"
    using two_powr_scale [of ?e 52] by simp
  from exponent_bounds(1) [OF assms] hi have "x < 2 ^ 53 * ?u" by simp
  then show "x / ?u < 2 ^ 53" using u by (simp add: divide_less_eq)
  show "2 ^ 52 \<le> x / ?u" if "- 1022 < ?e"
  proof -
    from exponent_bounds(2) [OF assms that] lo have "2 ^ 52 * ?u \<le> x" by simp
    then show ?thesis using u by (simp add: le_divide_eq)
  qed
qed

lemma rounded_bounds:
  assumes "0 < x"
  shows "0 \<le> round_even (x / 2 powr of_int (exponent x - 52))"
    and "round_even (x / 2 powr of_int (exponent x - 52)) \<le> 2 ^ 53"
    and "- 1022 < exponent x \<Longrightarrow> 2 ^ 52 \<le> round_even (x / 2 powr of_int (exponent x - 52))"
proof -
  let ?m = "x / 2 powr of_int (exponent x - 52)"
  have "0 \<le> ?m" using assms by simp
  then have "round_even (of_int 0) \<le> round_even ?m" by (intro round_even_mono) simp
  then show "0 \<le> round_even ?m" by (simp only: round_even_int)
  have "?m \<le> of_int (2 ^ 53)" using scaled_bounds(1) [OF assms] by simp
  then have "round_even ?m \<le> round_even (of_int (2 ^ 53))" by (rule round_even_mono)
  then show "round_even ?m \<le> 2 ^ 53" by (simp only: round_even_int)
  show "2 ^ 52 \<le> round_even ?m" if "- 1022 < exponent x"
  proof -
    have "of_int (2 ^ 52) \<le> ?m" using scaled_bounds(2) [OF assms that] by simp
    then have "round_even (of_int (2 ^ 52)) \<le> round_even ?m" by (rule round_even_mono)
    then show ?thesis by (simp only: round_even_int)
  qed
qed

lemma binary64_bounds:
  assumes "0 < x"
  shows "0 \<le> binary64 x"
    and "binary64 x \<le> 2 powr of_int (exponent x + 1)"
    and "- 1022 < exponent x \<Longrightarrow> 2 powr of_int (exponent x) \<le> binary64 x"
proof -
  let ?e = "exponent x"
  let ?u = "(2::real) powr of_int (?e - 52)"
  let ?r = "round_even (x / ?u)"
  have u: "0 < ?u" by simp
  have hi: "(2::real) powr of_int (?e + 1) = 2 ^ 53 * ?u"
    using two_powr_scale [of "?e + 1" 53] by simp
  have lo: "(2::real) powr of_int ?e = 2 ^ 52 * ?u"
    using two_powr_scale [of ?e 52] by simp
  note r = rounded_bounds [OF assms]
  have fl: "binary64 x = of_int ?r * ?u" using assms by (rule binary64_pos)
  from r(1) have "0 \<le> (of_int ?r :: real)" by simp
  then show "0 \<le> binary64 x" unfolding fl using u by simp
  from r(2) have "(of_int ?r :: real) \<le> of_int (2 ^ 53)" by (rule of_int_le_iff [THEN iffD2])
  then have "of_int ?r * ?u \<le> 2 ^ 53 * ?u" using u by (simp add: mult_right_mono)
  then show "binary64 x \<le> 2 powr of_int (?e + 1)" unfolding fl hi .
  show "2 powr of_int ?e \<le> binary64 x" if "- 1022 < ?e"
  proof -
    from r(3) [OF that] have "(of_int (2 ^ 52) :: real) \<le> of_int ?r"
      by (rule of_int_le_iff [THEN iffD2])
    then have "2 ^ 52 * ?u \<le> of_int ?r * ?u" using u by (simp add: mult_right_mono)
    then show ?thesis unfolding fl lo .
  qed
qed

lemma binary64_mono_pos:
  assumes "0 < x" "x \<le> y"
  shows "binary64 x \<le> binary64 y"
proof -
  have y: "0 < y" using assms by simp
  have le: "exponent x \<le> exponent y" using assms by (rule exponent_mono)
  show ?thesis
  proof (cases "exponent x = exponent y")
    case True
    let ?u = "(2::real) powr of_int (exponent y - 52)"
    have "x / ?u \<le> y / ?u" using assms(2) by (simp add: divide_right_mono)
    then have "round_even (x / ?u) \<le> round_even (y / ?u)" by (rule round_even_mono)
    then have "(of_int (round_even (x / ?u)) :: real) \<le> of_int (round_even (y / ?u))"
      by simp
    then have "of_int (round_even (x / ?u)) * ?u \<le> of_int (round_even (y / ?u)) * ?u"
      by (simp add: mult_right_mono)
    then show ?thesis
      unfolding binary64_pos [OF assms(1)] binary64_pos [OF y] True .
  next
    case False
    with le have lt: "exponent x + 1 \<le> exponent y" by simp
    moreover have "- 1022 \<le> exponent x" using assms(1) by (intro exponent_least) simp
    ultimately have big: "- 1022 < exponent y" by simp
    have "binary64 x \<le> 2 powr of_int (exponent x + 1)"
      using assms(1) by (rule binary64_bounds(2))
    also have "\<dots> \<le> 2 powr of_int (exponent y)" using lt by (intro powr_mono) simp_all
    also have "\<dots> \<le> binary64 y" using y big by (rule binary64_bounds(3))
    finally show ?thesis .
  qed
qed

lemma binary64_minus: "binary64 (- x) = - binary64 x"
  by (simp add: binary64_def exponent_def)

lemma binary64_zero: "binary64 0 = 0"
  by (simp add: binary64_def)

lemma binary64_mono: "x \<le> y \<Longrightarrow> binary64 x \<le> binary64 y"
proof -
  assume xy: "x \<le> y"
  consider "0 < x" | "x \<le> 0" "0 \<le> y" | "y < 0" by linarith
  then show ?thesis
  proof cases
    case 1
    then show ?thesis using xy by (rule binary64_mono_pos)
  next
    case 2
    have "binary64 x \<le> 0"
    proof (cases "x = 0")
      case True
      then show ?thesis by (simp add: binary64_zero)
    next
      case False
      with 2 have "0 < - x" by simp
      from binary64_bounds(1) [OF this] show ?thesis by (simp add: binary64_minus)
    qed
    moreover have "0 \<le> binary64 y"
    proof (cases "y = 0")
      case True
      then show ?thesis by (simp add: binary64_zero)
    next
      case False
      with 2 have "0 < y" by simp
      then show ?thesis by (rule binary64_bounds(1))
    qed
    ultimately show ?thesis by simp
  next
    case 3
    then have "0 < - y" "- y \<le> - x" using xy by simp_all
    from binary64_mono_pos [OF this] show ?thesis by (simp add: binary64_minus)
  qed
qed

lemma binary64_idem_pos:
  assumes "0 < x"
  shows "binary64 (binary64 x) = binary64 x"
proof -
  let ?e = "exponent x"
  let ?u = "(2::real) powr of_int (?e - 52)"
  let ?r = "round_even (x / ?u)"
  have u: "0 < ?u" by simp
  note r = rounded_bounds [OF assms]
  have fl: "binary64 x = of_int ?r * ?u" using assms by (rule binary64_pos)
  have hi: "(2::real) powr of_int (?e + 1) = 2 ^ 53 * ?u"
    using two_powr_scale [of "?e + 1" 53] by simp
  have lo: "(2::real) powr of_int ?e = 2 ^ 52 * ?u"
    using two_powr_scale [of ?e 52] by simp
  have e0: "- 1022 \<le> ?e" using assms by (intro exponent_least) simp
  show ?thesis
  proof (cases "?r = 0")
    case True
    with fl show ?thesis by (simp add: binary64_zero)
  next
    case False
    with r(1) have rpos: "0 < ?r" by simp
    then have ypos: "0 < binary64 x" unfolding fl using u by simp
    show ?thesis
    proof (cases "?r = 2 ^ 53")
      case True
      then have y: "binary64 x = 2 powr of_int (?e + 1)" unfolding fl hi by simp
      have ey: "exponent (binary64 x) = ?e + 1"
      proof (rule exponent_eq [OF ypos])
        show "2 powr of_int (?e + 1) \<le> binary64 x" using y by simp
        show "binary64 x < 2 powr of_int (?e + 1 + 1)"
          unfolding y by (intro powr_less_mono) simp_all
        show "- 1022 \<le> ?e + 1" using e0 by simp
      qed
      have "(2::real) powr of_int (?e + 1) = 2 ^ 52 * 2 powr of_int (?e + 1 - 52)"
        using two_powr_scale [of "?e + 1" 52] by simp
      then have "binary64 x / 2 powr of_int (?e + 1 - 52) = of_int (2 ^ 52)"
        unfolding y by simp
      then have "round_even (binary64 x / 2 powr of_int (?e + 1 - 52)) = 2 ^ 52"
        by (simp only: round_even_int)
      then have "binary64 (binary64 x) = 2 ^ 52 * 2 powr of_int (?e + 1 - 52)"
        unfolding binary64_pos [OF ypos] ey by simp
      also have "\<dots> = 2 powr of_int (?e + 1)"
        using two_powr_scale [of "?e + 1" 52] by simp
      finally show ?thesis using y by simp
    next
      case False
      with r(2) have rlt: "?r < 2 ^ 53" by simp
      have ey: "exponent (binary64 x) = ?e"
      proof (cases "- 1022 < ?e")
        case True
        show ?thesis
        proof (rule exponent_eq [OF ypos])
          show "2 powr of_int ?e \<le> binary64 x" using assms True by (rule binary64_bounds(3))
          have "(of_int ?r :: real) < of_int (2 ^ 53)" using rlt by (rule of_int_less_iff [THEN iffD2])
          then have "of_int ?r * ?u < 2 ^ 53 * ?u" using u by simp
          then show "binary64 x < 2 powr of_int (?e + 1)" unfolding fl hi .
          show "- 1022 \<le> ?e" by (rule e0)
        qed
      next
        case False
        with e0 have e: "?e = - 1022" by simp
        have "(of_int ?r :: real) < of_int (2 ^ 53)" using rlt by (rule of_int_less_iff [THEN iffD2])
        then have "of_int ?r * ?u < 2 ^ 53 * ?u" using u by simp
        then have lt: "binary64 x < 2 powr of_int (?e + 1)" unfolding fl hi .
        have "log 2 (binary64 x) < log 2 (2 powr of_int (?e + 1))"
          using ypos lt by (simp add: log_less_cancel_iff del: log_powr_cancel)
        then have "log 2 (binary64 x) < of_int (?e + 1)" by simp
        then have "log 2 (binary64 x) < of_int (?e + 1)" by simp
        then have "\<lfloor>log 2 (binary64 x)\<rfloor> < ?e + 1" by (simp only: floor_less_iff)
        then have "\<lfloor>log 2 (binary64 x)\<rfloor> \<le> - 1022" using e by simp
        then show ?thesis using ypos e by (simp add: exponent_log)
      qed
      have "binary64 x / ?u = of_int ?r" unfolding fl using u by simp
      then have "round_even (binary64 x / ?u) = ?r" by (simp only: round_even_int)
      then show ?thesis unfolding binary64_pos [OF ypos] ey fl [symmetric] by (simp add: fl)
    qed
  qed
qed

lemma binary64_idem: "binary64 (binary64 x) = binary64 x"
proof -
  consider "0 < x" | "x = 0" | "x < 0" by linarith
  then show ?thesis
  proof cases
    case 1
    then show ?thesis by (rule binary64_idem_pos)
  next
    case 2
    then show ?thesis by (simp add: binary64_zero)
  next
    case 3
    then have "0 < - x" by simp
    from binary64_idem_pos [OF this] show ?thesis by (simp add: binary64_minus)
  qed
qed

lemmas binary64_eval = binary64_def exponent_def exponent_up.simps exponent_down.simps
  round_even_def Let_def power_int_def power_one_over

text \<open>
  Claim C6, as stated, fails for a handler that rejects with \<open>null\<close>: it is invoked three
  times and \<open>_executeWithRetry\<close> throws \<open>null\<close>, but then the catch block of
  \<open>processBatch\<close> throws when it reads \<open>error.message\<close>; the items of the batch are not
  marked failed (the slot stays unwritten) and \<open>active\<close> stays as it was.
\<close>

theorem retry_bound_counterexample:
  "executeWithRetry (op_execute null_rejecting ([[JNum 1, JNum 2]] ! 0))
     (retryAttempts (BATCH_OPERATIONS_CONFIG :: nat options))
     (retryDelay (BATCH_OPERATIONS_CONFIG :: nat options)) exact (mid_draw 0) 0
   = (Inl ThrownNull, [1000, 1500], 3)
   \<and> processBatch null_rejecting [[JNum 1, JNum 2]] BATCH_OPERATIONS_CONFIG exact mid_draw 0
       \<lparr> results = [None], active = 1, nextBatchIndex = 1, pending = [], world = 0 \<rparr>
     = \<lparr> results = [None], active = 1, nextBatchIndex = 1, pending = [], world = 3 \<rparr>"
  by (simp add: processBatch_def executeWithRetry_def retry_from.simps null_rejecting_def
      BATCH_OPERATIONS_CONFIG_def backoffDelay_def jitter_def exact_def mid_draw_def)

text \<open>
  Claim C6, amended. When every execution of the handler on a batch throws,
  \<open>_executeWithRetry\<close> invokes it exactly \<open>retryAttempts\<close> times and throws the value the
  last invocation threw (\<open>undefined\<close> when \<open>retryAttempts\<close> is \<open>0\<close>). When the message of
  that value can be read, \<open>processBatch\<close> writes into the batch's slot one failed result
  per item of the batch, each with that message as its error, and decrements \<open>active\<close>;
  when the value is \<open>null\<close> or \<open>undefined\<close>, the results array and \<open>active\<close> stay as they
  were.
\<close>

theorem retry_bound:
  assumes "\<forall>w. isl (fst (op_execute operation (batches ! i) w))"
  shows "fst (snd (snd (executeWithRetry (counted (op_execute operation (batches ! i)))
                          (retryAttempts opts) (retryDelay opts) fl (rnd i) (0, world s))))
           = retryAttempts opts
       \<and> (\<exists>e. e = (if 0 < retryAttempts opts
                    then projl (fst (op_execute operation (batches ! i)
                           (((\<lambda>w. snd (op_execute operation (batches ! i) w))
                               ^^ (retryAttempts opts - 1)) (world s))))
                    else ThrownUndefined)
             \<and> fst (executeWithRetry (op_execute operation (batches ! i))
                       (retryAttempts opts) (retryDelay opts) fl (rnd i) (world s)) = Inl e
             \<and> (\<forall>msg. message_of e = Inr msg \<longrightarrow>
                   results (processBatch operation batches opts fl rnd i s)
                     = (results s)[i := Some (map (\<lambda>item. \<lparr> r_success = False, r_result = None,
                                                            r_error = msg, r_id = None,
                                                            r_item = item \<rparr>) (batches ! i))]
                 \<and> active (processBatch operation batches opts fl rnd i s) = active s - 1)
             \<and> (\<not> message_readable e \<longrightarrow>
                   results (processBatch operation batches opts fl rnd i s) = results s
                 \<and> active (processBatch operation batches opts fl rnd i s) = active s))"
proof -
  let ?fn = "op_execute operation (batches ! i)"
  let ?m = "retryAttempts opts"
  let ?e = "if 0 < ?m then projl (fst (?fn (((\<lambda>w. snd (?fn w)) ^^ (?m - 1)) (world s))))
            else ThrownUndefined"
  have thr: "isl (fst (?fn w))" for w using assms by blast
  have cthr: "isl (fst (counted ?fn cw))" for cw
    using counted_throws [OF thr] by (cases cw) simp
  have "snd (snd (executeWithRetry (counted ?fn) ?m (retryDelay opts) fl (rnd i) (0, world s)))
          = (?m, ((\<lambda>w. snd (?fn w)) ^^ ?m) (world s))"
    unfolding executeWithRetry_def retry_from_throws [of "counted ?fn", OF cthr]
    by (simp add: counted_iterate)
  then have count: "fst (snd (snd (executeWithRetry (counted ?fn) ?m (retryDelay opts) fl (rnd i)
                       (0, world s)))) = ?m"
    by simp
  have "executeWithRetry ?fn ?m (retryDelay opts) fl (rnd i) (world s) =
      (Inl (if 1 \<le> ?m then projl (fst (?fn (((\<lambda>w. snd (?fn w)) ^^ (?m - 1)) (world s))))
            else ThrownUndefined),
       [] @ map (\<lambda>k. backoffDelay fl (retryDelay opts) k (rnd i k)) [1..<?m],
       ((\<lambda>w. snd (?fn w)) ^^ (Suc ?m - 1)) (world s))"
    unfolding executeWithRetry_def by (rule retry_from_throws [of ?fn, OF thr])
  then have run: "executeWithRetry ?fn ?m (retryDelay opts) fl (rnd i) (world s) =
      (Inl ?e, map (\<lambda>k. backoffDelay fl (retryDelay opts) k (rnd i k)) [1..<?m],
       ((\<lambda>w. snd (?fn w)) ^^ ?m) (world s))"
    by (simp add: Suc_le_eq)
  have thrown: "fst (executeWithRetry ?fn ?m (retryDelay opts) fl (rnd i) (world s)) = Inl ?e"
    by (simp only: run fst_conv)
  have marked: "results (processBatch operation batches opts fl rnd i s)
                  = (results s)[i := Some (map (\<lambda>item. \<lparr> r_success = False, r_result = None,
                                                         r_error = msg, r_id = None,
                                                         r_item = item \<rparr>) (batches ! i))]
                \<and> active (processBatch operation batches opts fl rnd i s) = active s - 1"
    if "message_of ?e = Inr msg" for msg
    using that by (simp only: processBatch_def Let_def run) (simp add: batch_failure_def)
  have unmarked: "results (processBatch operation batches opts fl rnd i s) = results s
                \<and> active (processBatch operation batches opts fl rnd i s) = active s"
    if "\<not> message_readable ?e"
  proof -
    from that obtain typeError where "message_of ?e = Inl typeError"
      by (cases ?e) simp_all
    then show ?thesis by (simp only: processBatch_def Let_def run) simp
  qed
  show ?thesis
    using count thrown marked unmarked by blast
qed

theorem retry_bound_witness:
  "fst (snd (snd (executeWithRetry
                    (counted (op_execute create_without_repository ([[JNum 1, JNum 2]] ! 0)))
                    (retryAttempts (BATCH_OPERATIONS_CONFIG :: nat options))
                    (retryDelay (BATCH_OPERATIONS_CONFIG :: nat options)) exact (mid_draw 0)
                    (0, 0)))) = 3
   \<and> results (processBatch create_without_repository [[JNum 1, JNum 2]]
                BATCH_OPERATIONS_CONFIG exact mid_draw 0
                \<lparr> results = [None], active = 1, nextBatchIndex = 1, pending = [], world = 0 \<rparr>)
       = [Some [\<lparr> r_success = False, r_result = None,
                  r_error = Some ''Repository with create() method is required'',
                  r_id = None, r_item = JNum 1 \<rparr>,
                \<lparr> r_success = False, r_result = None,
                  r_error = Some ''Repository with create() method is required'',
                  r_id = None, r_item = JNum 2 \<rparr>]]
   \<and> active (processBatch create_without_repository [[JNum 1, JNum 2]]
                BATCH_OPERATIONS_CONFIG exact mid_draw 0
                \<lparr> results = [None], active = 1, nextBatchIndex = 1, pending = [], world = 0 \<rparr>)
       = 0"
proof -
  have h: "\<forall>w. isl (fst (op_execute create_without_repository ([[JNum 1, JNum 2]] ! 0) w))"
    by (simp add: create_without_repository_def create_execute_def BATCH_OPERATIONS_CONFIG_def)
  show ?thesis
    using retry_bound [of create_without_repository "[[JNum 1, JNum 2]]" 0
        "BATCH_OPERATIONS_CONFIG :: nat options" exact mid_draw
        "\<lparr> results = [None], active = 1, nextBatchIndex = 1, pending = [], world = 0 \<rparr>", OF h]
    by (simp add: create_without_repository_def create_execute_def BATCH_OPERATIONS_CONFIG_def)
qed

text \<open>
  Claim C7. With every draw of \<open>Math.random()\<close> in \<open>[0, 1)\<close> and a rounding that is
  monotone and leaves \<open>0\<close> and its own results as they are, the delays \<open>_executeWithRetry\<close>
  sleeps are fewer than \<open>maxAttempts\<close>; the delay after the failed attempt \<open>k\<close> is the
  rounded product of \<open>baseDelay\<close>, \<open>1.5^(k-1)\<close> and the jitter \<open>r * 0.3 + 0.85\<close> of that
  attempt's draw \<open>r\<close>; the jitter lies between the rounded \<open>0.85\<close> and the rounded sum of
  \<open>0.3\<close> and \<open>0.85\<close>, and for a base delay that is not negative the delay lies between
  the products with these bounds; and when every attempt fails there is one delay for
  each attempt before the last. The rounding to the nearest double is such a rounding:
  with it, a base delay of \<open>1000\<close> and the draws \<open>0.25\<close> and \<open>0.75\<close> the delays are
  \<open>924.9999999999999\<close> and \<open>1612.5\<close>. In exact arithmetic the jitter is \<open>0.85 + 0.3 * r\<close>, it
  takes every value from \<open>0.85\<close> up to \<open>1.15\<close> as the draw goes from \<open>0\<close> up to \<open>1\<close>, and
  the delay is \<open>baseDelay * 1.5^(k-1) * (0.85 + 0.3 * r)\<close>.
\<close>

theorem backoff_delay:
  assumes "\<forall>k. 0 \<le> rnd k \<and> rnd k < 1"
    and "\<forall>x y. x \<le> y \<longrightarrow> fl x \<le> fl y" and "\<forall>x. fl (fl x) = fl x" and "fl 0 = 0"
  shows "length (fst (snd (executeWithRetry fn m d fl rnd w))) < max m 1
       \<and> (\<forall>k. 1 \<le> k \<and> k \<le> length (fst (snd (executeWithRetry fn m d fl rnd w))) \<longrightarrow>
              fst (snd (executeWithRetry fn m d fl rnd w)) ! (k - 1)
                = fl (fl (d * fl (fl 1.5 ^ (k - 1))) * fl (fl (rnd k * fl 0.3) + fl 0.85))
            \<and> fl 0.85 \<le> fl (fl (rnd k * fl 0.3) + fl 0.85)
            \<and> fl (fl (rnd k * fl 0.3) + fl 0.85) \<le> fl (fl 0.3 + fl 0.85)
            \<and> (0 \<le> d \<longrightarrow>
                 fl (fl (d * fl (fl 1.5 ^ (k - 1))) * fl 0.85)
                   \<le> fst (snd (executeWithRetry fn m d fl rnd w)) ! (k - 1)
               \<and> fst (snd (executeWithRetry fn m d fl rnd w)) ! (k - 1)
                   \<le> fl (fl (d * fl (fl 1.5 ^ (k - 1))) * fl (fl 0.3 + fl 0.85))))
       \<and> ((\<forall>w. isl (fst (fn w))) \<longrightarrow>
              length (fst (snd (executeWithRetry fn m d fl rnd w))) = m - 1)
       \<and> (\<forall>k r. jitter (\<lambda>x. x) r = 0.85 + 0.3 * r
              \<and> backoffDelay (\<lambda>x. x) d k r = d * 1.5 ^ (k - 1) * (0.85 + 0.3 * r))
       \<and> (\<forall>j. 0.85 \<le> j \<and> j < 1.15 \<longrightarrow>
              0 \<le> (j - 0.85) / 0.3 \<and> (j - 0.85) / 0.3 < 1
            \<and> jitter (\<lambda>x. x) ((j - 0.85) / 0.3) = j)"
proof -
  have mono: "x \<le> y \<Longrightarrow> fl x \<le> fl y" for x y using assms(2) by blast
  have idem: "fl (fl x) = fl x" for x using assms(3) by blast
  note zero = assms(4)
  obtain r sl w' where run: "executeWithRetry fn m d fl rnd w = (r, sl, w')"
    by (cases "executeWithRetry fn m d fl rnd w") auto
  from retry_from_slept [OF run [unfolded executeWithRetry_def]]
  obtain e where e: "1 \<le> e" "e \<le> max 1 m"
    and sl: "sl = map (\<lambda>k. backoffDelay fl d k (rnd k)) [1..<e]" by auto
  have len: "length sl = e - 1" using sl by simp
  have a: "length sl < max m 1" using len e by auto
  have b: "sl ! (k - 1)
             = fl (fl (d * fl (fl 1.5 ^ (k - 1))) * fl (fl (rnd k * fl 0.3) + fl 0.85))
         \<and> fl 0.85 \<le> fl (fl (rnd k * fl 0.3) + fl 0.85)
         \<and> fl (fl (rnd k * fl 0.3) + fl 0.85) \<le> fl (fl 0.3 + fl 0.85)
         \<and> (0 \<le> d \<longrightarrow>
               fl (fl (d * fl (fl 1.5 ^ (k - 1))) * fl 0.85) \<le> sl ! (k - 1)
             \<and> sl ! (k - 1) \<le> fl (fl (d * fl (fl 1.5 ^ (k - 1))) * fl (fl 0.3 + fl 0.85)))"
    if "1 \<le> k" "k \<le> length sl" for k
  proof -
    have rk: "0 \<le> rnd k" "rnd k < 1" using assms(1) by simp_all
    have "k - 1 < length [1..<e]" using that len by simp
    then have "sl ! (k - 1) = backoffDelay fl d ([1..<e] ! (k - 1)) (rnd ([1..<e] ! (k - 1)))"
      unfolding sl by (rule nth_map)
    moreover have "[1..<e] ! (k - 1) = k" using that len by simp
    ultimately have eq: "sl ! (k - 1) = backoffDelay fl d k (rnd k)" by simp
    have j: "fl 0.85 \<le> jitter fl (rnd k) \<and> jitter fl (rnd k) \<le> fl (fl 0.3 + fl 0.85)"
      using mono idem zero rk by (rule jitter_bounds)
    have bd: "fl (fl (d * fl (fl 1.5 ^ (k - 1))) * fl 0.85) \<le> backoffDelay fl d k (rnd k)
       \<and> backoffDelay fl d k (rnd k)
           \<le> fl (fl (d * fl (fl 1.5 ^ (k - 1))) * fl (fl 0.3 + fl 0.85))" if "0 \<le> d"
      using mono idem zero rk that by (rule backoffDelay_bounds)
    show ?thesis
      unfolding eq using j bd by (simp add: backoffDelay_def jitter_def)
  qed
  have c: "length sl = m - 1" if "\<forall>w. isl (fst (fn w))"
  proof -
    have "isl (fst (fn w))" for w using that by blast
    then have "executeWithRetry fn m d fl rnd w =
      (Inl (if 1 \<le> m then projl (fst (fn (((\<lambda>w. snd (fn w)) ^^ (m - 1)) w)))
            else ThrownUndefined),
       [] @ map (\<lambda>k. backoffDelay fl d k (rnd k)) [1..<m],
       ((\<lambda>w. snd (fn w)) ^^ (Suc m - 1)) w)"
      unfolding executeWithRetry_def by (rule retry_from_throws)
    with run have "sl = map (\<lambda>k. backoffDelay fl d k (rnd k)) [1..<m]" by simp
    then show ?thesis by simp
  qed
  have x: "jitter (\<lambda>x. x) r = 0.85 + 0.3 * r
         \<and> backoffDelay (\<lambda>x. x) d k r = d * 1.5 ^ (k - 1) * (0.85 + 0.3 * r)" for k r
    by (simp add: jitter_def backoffDelay_def)
  have u: "0 \<le> (j - 0.85) / 0.3 \<and> (j - 0.85) / 0.3 < 1 \<and> jitter (\<lambda>x. x) ((j - 0.85) / 0.3) = j"
    if "0.85 \<le> j \<and> j < 1.15" for j :: real
    using that by (auto simp: jitter_def field_simps)
  have B: "\<forall>k. 1 \<le> k \<and> k \<le> length sl \<longrightarrow>
              sl ! (k - 1)
                = fl (fl (d * fl (fl 1.5 ^ (k - 1))) * fl (fl (rnd k * fl 0.3) + fl 0.85))
            \<and> fl 0.85 \<le> fl (fl (rnd k * fl 0.3) + fl 0.85)
            \<and> fl (fl (rnd k * fl 0.3) + fl 0.85) \<le> fl (fl 0.3 + fl 0.85)
            \<and> (0 \<le> d \<longrightarrow>
                 fl (fl (d * fl (fl 1.5 ^ (k - 1))) * fl 0.85) \<le> sl ! (k - 1)
               \<and> sl ! (k - 1) \<le> fl (fl (d * fl (fl 1.5 ^ (k - 1))) * fl (fl 0.3 + fl 0.85)))"
    using b by blast
  have C: "(\<forall>w. isl (fst (fn w))) \<longrightarrow> length sl = m - 1" using c by blast
  have X: "\<forall>k r. jitter (\<lambda>x. x) r = 0.85 + 0.3 * r
              \<and> backoffDelay (\<lambda>x. x) d k r = d * 1.5 ^ (k - 1) * (0.85 + 0.3 * r)"
    using x by blast
  have U: "\<forall>j::real. 0.85 \<le> j \<and> j < 1.15 \<longrightarrow>
              0 \<le> (j - 0.85) / 0.3 \<and> (j - 0.85) / 0.3 < 1
            \<and> jitter (\<lambda>x. x) ((j - 0.85) / 0.3) = j"
    using u by blast
  show ?thesis by (simp only: run fst_conv snd_conv) (rule conjI a B C X U)+
qed

theorem backoff_delay_witness:
  "fst (snd (executeWithRetry (op_execute create_without_repository [JNum 1]) 3 1000
               exact (rising_draw 0) (0::nat))) = [850, 1612.5]
   \<and> fst (snd (executeWithRetry (op_execute create_without_repository [JNum 1]) 3 1000
               to_1024ths (rising_draw 0) (0::nat))) = [849.609375, 1611.328125]
   \<and> fst (snd (executeWithRetry (op_execute create_without_repository [JNum 1]) 3 1000
               binary64 (late_draw 0) (0::nat)))
       = [8136386045542399 / 8796093022208, 1612.5]"
proof -
  have h: "\<forall>k. 0 \<le> rising_draw 0 k \<and> rising_draw 0 k < 1"
    by (simp add: rising_draw_def)
  have t: "\<forall>w. isl (fst (op_execute create_without_repository [JNum 1] w))"
    by (simp add: create_without_repository_def create_execute_def BATCH_OPERATIONS_CONFIG_def)
  have e: "\<forall>x y. x \<le> y \<longrightarrow> exact x \<le> exact y" "\<forall>x. exact (exact x) = exact x" "exact 0 = 0"
    by (simp_all add: exact_def)
  have f: "\<forall>x y. x \<le> y \<longrightarrow> to_1024ths x \<le> to_1024ths y"
    "\<forall>x. to_1024ths (to_1024ths x) = to_1024ths x" "to_1024ths 0 = 0"
    by (simp_all add: to_1024ths_mono to_1024ths_idem) (simp add: to_1024ths_def)
  have h': "\<forall>k. 0 \<le> late_draw 0 k \<and> late_draw 0 k < 1"
    by (simp add: late_draw_def)
  have g: "\<forall>x y. x \<le> y \<longrightarrow> binary64 x \<le> binary64 y"
    "\<forall>x. binary64 (binary64 x) = binary64 x" "binary64 0 = 0"
    by (simp_all add: binary64_mono binary64_idem binary64_zero)
  have l: "length xs = 2 \<Longrightarrow> xs = [xs ! 0, xs ! 1]" for xs :: "real list"
    by (cases xs; cases "tl xs") auto
  let ?a = "fst (snd (executeWithRetry (op_execute create_without_repository [JNum 1])
                3 1000 exact (rising_draw 0) (0::nat)))"
  let ?b = "fst (snd (executeWithRetry (op_execute create_without_repository [JNum 1])
                3 1000 to_1024ths (rising_draw 0) (0::nat)))"
  from backoff_delay [of "rising_draw 0" exact "op_execute create_without_repository [JNum 1]"
      3 1000 0, OF h e] t
  have lena: "length ?a = 2"
    and ntha: "\<And>k. 1 \<le> k \<Longrightarrow> k \<le> 2 \<Longrightarrow>
       ?a ! (k - 1) = exact (exact (1000 * exact (exact 1.5 ^ (k - 1)))
                        * exact (exact (rising_draw 0 k * exact 0.3) + exact 0.85))"
    by simp_all
  from backoff_delay [of "rising_draw 0" to_1024ths
      "op_execute create_without_repository [JNum 1]" 3 1000 0, OF h f] t
  have lenb: "length ?b = 2"
    and nthb: "\<And>k. 1 \<le> k \<Longrightarrow> k \<le> 2 \<Longrightarrow>
       ?b ! (k - 1) = to_1024ths (to_1024ths (1000 * to_1024ths (to_1024ths 1.5 ^ (k - 1)))
                        * to_1024ths (to_1024ths (rising_draw 0 k * to_1024ths 0.3)
                                        + to_1024ths 0.85))"
    by simp_all
  let ?c = "fst (snd (executeWithRetry (op_execute create_without_repository [JNum 1])
                3 1000 binary64 (late_draw 0) (0::nat)))"
  from backoff_delay [of "late_draw 0" binary64
      "op_execute create_without_repository [JNum 1]" 3 1000 0, OF h' g] t
  have lenc: "length ?c = 2"
    and nthc: "\<And>k. 1 \<le> k \<Longrightarrow> k \<le> 2 \<Longrightarrow>
       ?c ! (k - 1) = binary64 (binary64 (1000 * binary64 (binary64 1.5 ^ (k - 1)))
                        * binary64 (binary64 (late_draw 0 k * binary64 0.3)
                                      + binary64 0.85))"
    by simp_all
  have c1: "?c ! 0 = 8136386045542399 / 8796093022208"
    using nthc [of 1] by (simp add: late_draw_def binary64_eval)
  have c2: "?c ! 1 = 1612.5"
    using nthc [of 2] by (simp add: late_draw_def binary64_eval)
  have a1: "?a ! 0 = 850" using ntha [of 1] by (simp add: exact_def rising_draw_def)
  have a2: "?a ! 1 = 1612.5" using ntha [of 2] by (simp add: exact_def rising_draw_def)
  have b1: "?b ! 0 = 849.609375" using nthb [of 1] by (simp add: to_1024ths_def rising_draw_def)
  have b2: "?b ! 1 = 1611.328125" using nthb [of 2] by (simp add: to_1024ths_def rising_draw_def)
  have "?a = [?a ! 0, ?a ! 1]" using lena by (rule l)
  also have "\<dots> = [850, 1612.5]" by (simp only: a1 a2)
  finally have a: "?a = [850, 1612.5]" .
  have "?b = [?b ! 0, ?b ! 1]" using lenb by (rule l)
  also have "\<dots> = [849.609375, 1611.328125]" by (simp only: b1 b2)
  finally have b: "?b = [849.609375, 1611.328125]" .
  have "?c = [?c ! 0, ?c ! 1]" using lenc by (rule l)
  also have "\<dots> = [8136386045542399 / 8796093022208, 1612.5]" by (simp only: c1 c2)
  finally have c: "?c = [8136386045542399 / 8796093022208, 1612.5]" .
  from a b c show ?thesis by (intro conjI)
qed

section \<open>Per-item results of the handlers\<close>

lemma caught_runs: "message_readable error \<Longrightarrow> \<exists>r. caught error item w = (Inr r, w)"
  by (auto simp: message_readable_iff caught_readable)

lemma validation_step_throws:
  "validation_step vi item w = (Inl e, w1) \<Longrightarrow> \<exists>v. vi = Some v \<and> fst (v item w) = Inl e"
  by (auto simp: validation_step_def split: option.splits prod.splits sum.splits if_splits)

lemma create_item_runs:
  assumes "\<And>item w e. fst (create item w) = Inl e \<Longrightarrow> message_readable e"
    and "\<And>v item w e. vi = Some v \<Longrightarrow> fst (v item w) = Inl e \<Longrightarrow> message_readable e"
  shows "\<exists>r w1. create_item create vi item w = (Inr r, w1)"
proof (cases "validation_step vi item w")
  case (Pair o1 w1)
  show ?thesis
  proof (cases o1)
    case (Inl e)
    with Pair validation_step_throws [of vi item w e w1] assms(2)
    have "message_readable e" by blast
    from caught_runs [OF this, of item w1] Pair Inl show ?thesis
      by (auto simp: create_item_def)
  next
    case (Inr v)
    show ?thesis
    proof (cases v)
      case (Some failed)
      with Pair Inr show ?thesis by (simp add: create_item_def)
    next
      case None
      show ?thesis
      proof (cases "create item w1")
        case p: (Pair o2 w2)
        show ?thesis
        proof (cases o2)
          case (Inl e)
          with p assms(1) [of item w1 e] have "message_readable e" by simp
          from caught_runs [OF this, of item w2] Pair Inr None p Inl show ?thesis
            by (auto simp: create_item_def)
        next
          case r: (Inr res)
          with Pair Inr None p show ?thesis by (simp add: create_item_def)
        qed
      qed
    qed
  qed
qed

lemma update_item_runs:
  assumes "\<And>ident item w e. fst (update ident item w) = Inl e \<Longrightarrow> message_readable e"
    and "\<And>v item w e. vi = Some v \<Longrightarrow> fst (v item w) = Inl e \<Longrightarrow> message_readable e"
  shows "\<exists>r w1. update_item update vi idf item w = (Inr r, w1)"
proof (cases "get_prop item idf")
  case (Inl typeError)
  then show ?thesis by (simp add: update_item_def caught_def handleError_def)
next
  case ident: (Inr ident)
  show ?thesis
  proof (cases "truthy ident")
    case False
    with ident show ?thesis by (simp add: update_item_def)
  next
    case True
    show ?thesis
    proof (cases "validation_step vi item w")
      case (Pair o1 w1)
      show ?thesis
      proof (cases o1)
        case (Inl e)
        with Pair validation_step_throws [of vi item w e w1] assms(2)
        have "message_readable e" by blast
        from caught_runs [OF this, of item w1] Pair Inl ident True show ?thesis
          by (auto simp: update_item_def)
      next
        case (Inr v)
        show ?thesis
        proof (cases v)
          case (Some failed)
          with Pair Inr ident True show ?thesis by (simp add: update_item_def)
        next
          case None
          show ?thesis
          proof (cases "update ident item w1")
            case p: (Pair o2 w2)
            show ?thesis
            proof (cases o2)
              case (Inl e)
              with p assms(1) [of ident item w1 e] have "message_readable e" by simp
              from caught_runs [OF this, of item w2] Pair Inr None p Inl ident True
              show ?thesis by (auto simp: update_item_def)
            next
              case r: (Inr res)
              with Pair Inr None p ident True show ?thesis by (simp add: update_item_def)
            qed
          qed
        qed
      qed
    qed
  qed
qed

lemma delete_item_runs:
  assumes "\<And>ident w e. fst (delete ident w) = Inl e \<Longrightarrow> message_readable e"
  shows "\<exists>r w1. delete_item delete idf item w = (Inr r, w1)"
proof (cases "if typeof_object item then get_prop item idf else Inr item")
  case (Inl typeError)
  then show ?thesis by (simp add: delete_item_def caught_def handleError_def)
next
  case ident: (Inr ident)
  show ?thesis
  proof (cases "truthy ident")
    case False
    with ident show ?thesis by (simp add: delete_item_def)
  next
    case True
    show ?thesis
    proof (cases "delete ident w")
      case p: (Pair o2 w2)
      show ?thesis
      proof (cases o2)
        case (Inl e)
        with p assms [of ident w e] have "message_readable e" by simp
        from caught_runs [OF this, of item w2] p Inl ident True
        show ?thesis by (auto simp: delete_item_def)
      next
        case r: (Inr res)
        with p ident True show ?thesis by (simp add: delete_item_def)
      qed
    qed
  qed
qed

lemma custom_item_runs:
  assumes "\<And>item w e. fst (process item w) = Inl e \<Longrightarrow> message_readable e"
  shows "\<exists>r w1. custom_item process item w = (Inr r, w1)"
proof (cases "process item w")
  case p: (Pair o2 w2)
  show ?thesis
  proof (cases o2)
    case (Inl e)
    with p assms [of item w e] have "message_readable e" by simp
    from caught_runs [OF this, of item w2] p Inl
    show ?thesis by (auto simp: custom_item_def)
  next
    case r: (Inr res)
    with p show ?thesis by (simp add: custom_item_def)
  qed
qed

lemma for_items_isolated:
  assumes total: "\<And>item w. \<exists>r w1. body item w = (Inr r, w1)"
    and echo: "\<And>item w r w1. body item w = (Inr r, w1) \<Longrightarrow> r_item r = item"
  shows "\<exists>rs w'. for_items body items w = (Inr rs, w') \<and> map r_item rs = items
           \<and> (\<forall>i<length items. \<exists>wi wi'.
                  for_items body (take i items) w = (Inr (take i rs), wi)
                \<and> for_items body [items ! i] wi = (Inr [rs ! i], wi')
                \<and> body (items ! i) wi = (Inr (rs ! i), wi')
                \<and> for_items body (take (Suc i) items) w = (Inr (take (Suc i) rs), wi'))"
proof -
  from for_items_runs [of body items w, OF total]
  obtain rs w' where run: "for_items body items w = (Inr rs, w')" by blast
  have e: "map r_item rs = items" using echo run by (rule for_items_echo)
  have "\<exists>wi wi'. for_items body (take i items) w = (Inr (take i rs), wi)
                \<and> for_items body [items ! i] wi = (Inr [rs ! i], wi')
                \<and> body (items ! i) wi = (Inr (rs ! i), wi')
                \<and> for_items body (take (Suc i) items) w = (Inr (take (Suc i) rs), wi')"
    if "i < length items" for i
  proof -
    from for_items_index [OF run that] obtain wi wi'
      where a: "for_items body (take i items) w = (Inr (take i rs), wi)"
        and b: "body (items ! i) wi = (Inr (rs ! i), wi')"
        and c: "for_items body (take (Suc i) items) w = (Inr (take (Suc i) rs), wi')"
      by blast
    from b have "for_items body [items ! i] wi = (Inr [rs ! i], wi')" by simp
    with a b c show ?thesis by blast
  qed
  with run e show ?thesis by blast
qed

lemma create_isolated:
  assumes repo: "repository opts = Some repo" "repo_create repo = Some create"
    and c: "\<forall>item w e. fst (create item w) = Inl e \<longrightarrow> message_readable e"
    and v: "\<forall>v item w e. validateItem opts = Some v \<and> fst (v item w) = Inl e \<longrightarrow>
              message_readable e"
  shows "\<exists>rs w'. create_execute opts items w = (Inr rs, w') \<and> map r_item rs = items \<and>
         (\<forall>i<length items. \<exists>wi wi'.
             create_execute opts (take i items) w = (Inr (take i rs), wi)
           \<and> create_execute opts [items ! i] wi = (Inr [rs ! i], wi')
           \<and> create_execute opts (take (Suc i) items) w = (Inr (take (Suc i) rs), wi')
           \<and> (\<forall>wj e wk msg.
                  validation_step (validateItem opts) (items ! i) wi = (Inr None, wj)
                \<and> create (items ! i) wj = (Inl e, wk) \<and> message_of e = Inr msg \<longrightarrow>
                  rs ! i = \<lparr> r_success = False, r_result = None, r_error = msg, r_id = None,
                             r_item = items ! i \<rparr> \<and> wi' = wk)
           \<and> (\<forall>wj res wk.
                  validation_step (validateItem opts) (items ! i) wi = (Inr None, wj)
                \<and> create (items ! i) wj = (Inr res, wk) \<longrightarrow>
                  rs ! i = \<lparr> r_success = True, r_result = Some res, r_error = None,
                             r_id = None, r_item = items ! i \<rparr> \<and> wi' = wk))"
proof -
  let ?body = "create_item create (validateItem opts)"
  have ex: "create_execute opts xs w0 = for_items ?body xs w0" for xs w0
    using repo by (simp add: create_execute_def)
  have total: "\<exists>r w1. ?body item w0 = (Inr r, w1)" for item w0
    using c v by (intro create_item_runs) blast+
  have "\<exists>rs w'. for_items ?body items w = (Inr rs, w') \<and> map r_item rs = items
           \<and> (\<forall>i<length items. \<exists>wi wi'.
                  for_items ?body (take i items) w = (Inr (take i rs), wi)
                \<and> for_items ?body [items ! i] wi = (Inr [rs ! i], wi')
                \<and> ?body (items ! i) wi = (Inr (rs ! i), wi')
                \<and> for_items ?body (take (Suc i) items) w = (Inr (take (Suc i) rs), wi'))"
    by (rule for_items_isolated) (rule total, erule create_item_echo)
  then obtain rs w' where run: "for_items ?body items w = (Inr rs, w')"
    and items: "map r_item rs = items"
    and each: "\<forall>i<length items. \<exists>wi wi'.
                  for_items ?body (take i items) w = (Inr (take i rs), wi)
                \<and> for_items ?body [items ! i] wi = (Inr [rs ! i], wi')
                \<and> ?body (items ! i) wi = (Inr (rs ! i), wi')
                \<and> for_items ?body (take (Suc i) items) w = (Inr (take (Suc i) rs), wi')"
    by blast
  have "\<exists>wi wi'.
             create_execute opts (take i items) w = (Inr (take i rs), wi)
           \<and> create_execute opts [items ! i] wi = (Inr [rs ! i], wi')
           \<and> create_execute opts (take (Suc i) items) w = (Inr (take (Suc i) rs), wi')
           \<and> (\<forall>wj e wk msg.
                  validation_step (validateItem opts) (items ! i) wi = (Inr None, wj)
                \<and> create (items ! i) wj = (Inl e, wk) \<and> message_of e = Inr msg \<longrightarrow>
                  rs ! i = \<lparr> r_success = False, r_result = None, r_error = msg, r_id = None,
                             r_item = items ! i \<rparr> \<and> wi' = wk)
           \<and> (\<forall>wj res wk.
                  validation_step (validateItem opts) (items ! i) wi = (Inr None, wj)
                \<and> create (items ! i) wj = (Inr res, wk) \<longrightarrow>
                  rs ! i = \<lparr> r_success = True, r_result = Some res, r_error = None,
                             r_id = None, r_item = items ! i \<rparr> \<and> wi' = wk)"
    if "i < length items" for i
  proof -
    from each that obtain wi wi'
      where a: "for_items ?body (take i items) w = (Inr (take i rs), wi)"
        and s: "for_items ?body [items ! i] wi = (Inr [rs ! i], wi')"
        and b: "?body (items ! i) wi = (Inr (rs ! i), wi')"
        and n: "for_items ?body (take (Suc i) items) w = (Inr (take (Suc i) rs), wi')"
      by blast
    have f: "rs ! i = \<lparr> r_success = False, r_result = None, r_error = msg, r_id = None,
                        r_item = items ! i \<rparr> \<and> wi' = wk"
      if "validation_step (validateItem opts) (items ! i) wi = (Inr None, wj)"
        "create (items ! i) wj = (Inl e, wk)" "message_of e = Inr msg" for wj e wk msg
      using b that by (simp add: create_item_def caught_readable)
    have g: "rs ! i = \<lparr> r_success = True, r_result = Some res, r_error = None, r_id = None,
                        r_item = items ! i \<rparr> \<and> wi' = wk"
      if "validation_step (validateItem opts) (items ! i) wi = (Inr None, wj)"
        "create (items ! i) wj = (Inr res, wk)" for wj res wk
      using b that by (simp add: create_item_def succeeded_result_def)
    from a s n f g show ?thesis unfolding ex by blast
  qed
  with run items show ?thesis unfolding ex by blast
qed

lemma update_isolated:
  assumes repo: "repository opts = Some repo" "repo_update repo = Some update"
    and c: "\<forall>ident item w e. fst (update ident item w) = Inl e \<longrightarrow> message_readable e"
    and v: "\<forall>v item w e. validateItem opts = Some v \<and> fst (v item w) = Inl e \<longrightarrow>
              message_readable e"
  shows "\<exists>rs w'. update_execute opts items w = (Inr rs, w') \<and> map r_item rs = items \<and>
         (\<forall>i<length items. \<exists>wi wi'.
             update_execute opts (take i items) w = (Inr (take i rs), wi)
           \<and> update_execute opts [items ! i] wi = (Inr [rs ! i], wi')
           \<and> update_execute opts (take (Suc i) items) w = (Inr (take (Suc i) rs), wi')
           \<and> (\<forall>ident wj e wk msg.
                  get_prop (items ! i) (id_field_of opts) = Inr ident \<and> truthy ident
                \<and> validation_step (validateItem opts) (items ! i) wi = (Inr None, wj)
                \<and> update ident (items ! i) wj = (Inl e, wk) \<and> message_of e = Inr msg \<longrightarrow>
                  rs ! i = \<lparr> r_success = False, r_result = None, r_error = msg, r_id = None,
                             r_item = items ! i \<rparr> \<and> wi' = wk)
           \<and> (\<forall>ident wj res wk.
                  get_prop (items ! i) (id_field_of opts) = Inr ident \<and> truthy ident
                \<and> validation_step (validateItem opts) (items ! i) wi = (Inr None, wj)
                \<and> update ident (items ! i) wj = (Inr res, wk) \<longrightarrow>
                  rs ! i = \<lparr> r_success = True, r_result = Some res, r_error = None,
                             r_id = None, r_item = items ! i \<rparr> \<and> wi' = wk))"
proof -
  let ?body = "update_item update (validateItem opts) (id_field_of opts)"
  have ex: "update_execute opts xs w0 = for_items ?body xs w0" for xs w0
    using repo by (simp add: update_execute_def)
  have total: "\<exists>r w1. ?body item w0 = (Inr r, w1)" for item w0
    using c v by (intro update_item_runs) blast+
  have "\<exists>rs w'. for_items ?body items w = (Inr rs, w') \<and> map r_item rs = items
           \<and> (\<forall>i<length items. \<exists>wi wi'.
                  for_items ?body (take i items) w = (Inr (take i rs), wi)
                \<and> for_items ?body [items ! i] wi = (Inr [rs ! i], wi')
                \<and> ?body (items ! i) wi = (Inr (rs ! i), wi')
                \<and> for_items ?body (take (Suc i) items) w = (Inr (take (Suc i) rs), wi'))"
    by (rule for_items_isolated) (rule total, erule update_item_echo)
  then obtain rs w' where run: "for_items ?body items w = (Inr rs, w')"
    and items: "map r_item rs = items"
    and each: "\<forall>i<length items. \<exists>wi wi'.
                  for_items ?body (take i items) w = (Inr (take i rs), wi)
                \<and> for_items ?body [items ! i] wi = (Inr [rs ! i], wi')
                \<and> ?body (items ! i) wi = (Inr (rs ! i), wi')
                \<and> for_items ?body (take (Suc i) items) w = (Inr (take (Suc i) rs), wi')"
    by blast
  have "\<exists>wi wi'.
             update_execute opts (take i items) w = (Inr (take i rs), wi)
           \<and> update_execute opts [items ! i] wi = (Inr [rs ! i], wi')
           \<and> update_execute opts (take (Suc i) items) w = (Inr (take (Suc i) rs), wi')
           \<and> (\<forall>ident wj e wk msg.
                  get_prop (items ! i) (id_field_of opts) = Inr ident \<and> truthy ident
                \<and> validation_step (validateItem opts) (items ! i) wi = (Inr None, wj)
                \<and> update ident (items ! i) wj = (Inl e, wk) \<and> message_of e = Inr msg \<longrightarrow>
                  rs ! i = \<lparr> r_success = False, r_result = None, r_error = msg, r_id = None,
                             r_item = items ! i \<rparr> \<and> wi' = wk)
           \<and> (\<forall>ident wj res wk.
                  get_prop (items ! i) (id_field_of opts) = Inr ident \<and> truthy ident
                \<and> validation_step (validateItem opts) (items ! i) wi = (Inr None, wj)
                \<and> update ident (items ! i) wj = (Inr res, wk) \<longrightarrow>
                  rs ! i = \<lparr> r_success = True, r_result = Some res, r_error = None,
                             r_id = None, r_item = items ! i \<rparr> \<and> wi' = wk)"
    if "i < length items" for i
  proof -
    from each that obtain wi wi'
      where a: "for_items ?body (take i items) w = (Inr (take i rs), wi)"
        and s: "for_items ?body [items ! i] wi = (Inr [rs ! i], wi')"
        and b: "?body (items ! i) wi = (Inr (rs ! i), wi')"
        and n: "for_items ?body (take (Suc i) items) w = (Inr (take (Suc i) rs), wi')"
      by blast
    have f: "rs ! i = \<lparr> r_success = False, r_result = None, r_error = msg, r_id = None,
                        r_item = items ! i \<rparr> \<and> wi' = wk"
      if "get_prop (items ! i) (id_field_of opts) = Inr ident" "truthy ident"
        "validation_step (validateItem opts) (items ! i) wi = (Inr None, wj)"
        "update ident (items ! i) wj = (Inl e, wk)" "message_of e = Inr msg"
      for ident wj e wk msg
      using b that by (simp add: update_item_def caught_readable)
    have g: "rs ! i = \<lparr> r_success = True, r_result = Some res, r_error = None, r_id = None,
                        r_item = items ! i \<rparr> \<and> wi' = wk"
      if "get_prop (items ! i) (id_field_of opts) = Inr ident" "truthy ident"
        "validation_step (validateItem opts) (items ! i) wi = (Inr None, wj)"
        "update ident (items ! i) wj = (Inr res, wk)" for ident wj res wk
      using b that by (simp add: update_item_def succeeded_result_def)
    from a s n f g show ?thesis unfolding ex by blast
  qed
  with run items show ?thesis unfolding ex by blast
qed

lemma delete_isolated:
  assumes repo: "repository opts = Some repo" "repo_delete repo = Some delete"
    and c: "\<forall>ident w e. fst (delete ident w) = Inl e \<longrightarrow> message_readable e"
  shows "\<exists>rs w'. delete_execute opts items w = (Inr rs, w') \<and> map r_item rs = items \<and>
         (\<forall>i<length items. \<exists>wi wi'.
             delete_execute opts (take i items) w = (Inr (take i rs), wi)
           \<and> delete_execute opts [items ! i] wi = (Inr [rs ! i], wi')
           \<and> delete_execute opts (take (Suc i) items) w = (Inr (take (Suc i) rs), wi')
           \<and> (\<forall>ident e wk msg.
                  (if typeof_object (items ! i) then get_prop (items ! i) (id_field_of opts)
                   else Inr (items ! i)) = Inr ident \<and> truthy ident
                \<and> delete ident wi = (Inl e, wk) \<and> message_of e = Inr msg \<longrightarrow>
                  rs ! i = \<lparr> r_success = False, r_result = None, r_error = msg, r_id = None,
                             r_item = items ! i \<rparr> \<and> wi' = wk)
           \<and> (\<forall>ident res wk.
                  (if typeof_object (items ! i) then get_prop (items ! i) (id_field_of opts)
                   else Inr (items ! i)) = Inr ident \<and> truthy ident
                \<and> delete ident wi = (Inr res, wk) \<longrightarrow>
                  rs ! i = \<lparr> r_success = True, r_result = Some res, r_error = None,
                             r_id = Some ident, r_item = items ! i \<rparr> \<and> wi' = wk))"
proof -
  let ?body = "delete_item delete (id_field_of opts)"
  have ex: "delete_execute opts xs w0 = for_items ?body xs w0" for xs w0
    using repo by (simp add: delete_execute_def)
  have total: "\<exists>r w1. ?body item w0 = (Inr r, w1)" for item w0
    using c by (intro delete_item_runs) blast+
  have "\<exists>rs w'. for_items ?body items w = (Inr rs, w') \<and> map r_item rs = items
           \<and> (\<forall>i<length items. \<exists>wi wi'.
                  for_items ?body (take i items) w = (Inr (take i rs), wi)
                \<and> for_items ?body [items ! i] wi = (Inr [rs ! i], wi')
                \<and> ?body (items ! i) wi = (Inr (rs ! i), wi')
                \<and> for_items ?body (take (Suc i) items) w = (Inr (take (Suc i) rs), wi'))"
    by (rule for_items_isolated) (rule total, erule delete_item_echo)
  then obtain rs w' where run: "for_items ?body items w = (Inr rs, w')"
    and items: "map r_item rs = items"
    and each: "\<forall>i<length items. \<exists>wi wi'.
                  for_items ?body (take i items) w = (Inr (take i rs), wi)
                \<and> for_items ?body [items ! i] wi = (Inr [rs ! i], wi')
                \<and> ?body (items ! i) wi = (Inr (rs ! i), wi')
                \<and> for_items ?body (take (Suc i) items) w = (Inr (take (Suc i) rs), wi')"
    by blast
  have "\<exists>wi wi'.
             delete_execute opts (take i items) w = (Inr (take i rs), wi)
           \<and> delete_execute opts [items ! i] wi = (Inr [rs ! i], wi')
           \<and> delete_execute opts (take (Suc i) items) w = (Inr (take (Suc i) rs), wi')
           \<and> (\<forall>ident e wk msg.
                  (if typeof_object (items ! i) then get_prop (items ! i) (id_field_of opts)
                   else Inr (items ! i)) = Inr ident \<and> truthy ident
                \<and> delete ident wi = (Inl e, wk) \<and> message_of e = Inr msg \<longrightarrow>
                  rs ! i = \<lparr> r_success = False, r_result = None, r_error = msg, r_id = None,
                             r_item = items ! i \<rparr> \<and> wi' = wk)
           \<and> (\<forall>ident res wk.
                  (if typeof_object (items ! i) then get_prop (items ! i) (id_field_of opts)
                   else Inr (items ! i)) = Inr ident \<and> truthy ident
                \<and> delete ident wi = (Inr res, wk) \<longrightarrow>
                  rs ! i = \<lparr> r_success = True, r_result = Some res, r_error = None,
                             r_id = Some ident, r_item = items ! i \<rparr> \<and> wi' = wk)"
    if "i < length items" for i
  proof -
    from each that obtain wi wi'
      where a: "for_items ?body (take i items) w = (Inr (take i rs), wi)"
        and s: "for_items ?body [items ! i] wi = (Inr [rs ! i], wi')"
        and b: "?body (items ! i) wi = (Inr (rs ! i), wi')"
        and n: "for_items ?body (take (Suc i) items) w = (Inr (take (Suc i) rs), wi')"
      by blast
    have f: "rs ! i = \<lparr> r_success = False, r_result = None, r_error = msg, r_id = None,
                        r_item = items ! i \<rparr> \<and> wi' = wk"
      if "(if typeof_object (items ! i) then get_prop (items ! i) (id_field_of opts)
           else Inr (items ! i)) = Inr ident" "truthy ident"
        "delete ident wi = (Inl e, wk)" "message_of e = Inr msg"
      for ident e wk msg
      using b that by (simp add: delete_item_def caught_readable)
    have g: "rs ! i = \<lparr> r_success = True, r_result = Some res, r_error = None,
                        r_id = Some ident, r_item = items ! i \<rparr> \<and> wi' = wk"
      if "(if typeof_object (items ! i) then get_prop (items ! i) (id_field_of opts)
           else Inr (items ! i)) = Inr ident" "truthy ident"
        "delete ident wi = (Inr res, wk)" for ident res wk
      using b that by (simp add: delete_item_def succeeded_result_def)
    from a s n f g show ?thesis unfolding ex by blast
  qed
  with run items show ?thesis unfolding ex by blast
qed

lemma custom_isolated:
  assumes proc: "processor opts = Some process"
    and c: "\<forall>item w e. fst (process item w) = Inl e \<longrightarrow> message_readable e"
  shows "\<exists>rs w'. custom_execute opts items w = (Inr rs, w') \<and> map r_item rs = items \<and>
         (\<forall>i<length items. \<exists>wi wi'.
             custom_execute opts (take i items) w = (Inr (take i rs), wi)
           \<and> custom_execute opts [items ! i] wi = (Inr [rs ! i], wi')
           \<and> custom_execute opts (take (Suc i) items) w = (Inr (take (Suc i) rs), wi')
           \<and> (\<forall>e wk msg.
                  process (items ! i) wi = (Inl e, wk) \<and> message_of e = Inr msg \<longrightarrow>
                  rs ! i = \<lparr> r_success = False, r_result = None, r_error = msg, r_id = None,
                             r_item = items ! i \<rparr> \<and> wi' = wk)
           \<and> (\<forall>res wk.
                  process (items ! i) wi = (Inr res, wk) \<longrightarrow>
                  rs ! i = \<lparr> r_success = True, r_result = Some res, r_error = None,
                             r_id = None, r_item = items ! i \<rparr> \<and> wi' = wk))"
proof -
  let ?body = "custom_item process"
  have ex: "custom_execute opts xs w0 = for_items ?body xs w0" for xs w0
    using proc by (simp add: custom_execute_def)
  have total: "\<exists>r w1. ?body item w0 = (Inr r, w1)" for item w0
    using c by (intro custom_item_runs) blast+
  have "\<exists>rs w'. for_items ?body items w = (Inr rs, w') \<and> map r_item rs = items
           \<and> (\<forall>i<length items. \<exists>wi wi'.
                  for_items ?body (take i items) w = (Inr (take i rs), wi)
                \<and> for_items ?body [items ! i] wi = (Inr [rs ! i], wi')
                \<and> ?body (items ! i) wi = (Inr (rs ! i), wi')
                \<and> for_items ?body (take (Suc i) items) w = (Inr (take (Suc i) rs), wi'))"
    by (rule for_items_isolated) (rule total, erule custom_item_echo)
  then obtain rs w' where run: "for_items ?body items w = (Inr rs, w')"
    and items: "map r_item rs = items"
    and each: "\<forall>i<length items. \<exists>wi wi'.
                  for_items ?body (take i items) w = (Inr (take i rs), wi)
                \<and> for_items ?body [items ! i] wi = (Inr [rs ! i], wi')
                \<and> ?body (items ! i) wi = (Inr (rs ! i), wi')
                \<and> for_items ?body (take (Suc i) items) w = (Inr (take (Suc i) rs), wi')"
    by blast
  have "\<exists>wi wi'.
             custom_execute opts (take i items) w = (Inr (take i rs), wi)
           \<and> custom_execute opts [items ! i] wi = (Inr [rs ! i], wi')
           \<and> custom_execute opts (take (Suc i) items) w = (Inr (take (Suc i) rs), wi')
           \<and> (\<forall>e wk msg.
                  process (items ! i) wi = (Inl e, wk) \<and> message_of e = Inr msg \<longrightarrow>
                  rs ! i = \<lparr> r_success = False, r_result = None, r_error = msg, r_id = None,
                             r_item = items ! i \<rparr> \<and> wi' = wk)
           \<and> (\<forall>res wk.
                  process (items ! i) wi = (Inr res, wk) \<longrightarrow>
                  rs ! i = \<lparr> r_success = True, r_result = Some res, r_error = None,
                             r_id = None, r_item = items ! i \<rparr> \<and> wi' = wk)"
    if "i < length items" for i
  proof -
    from each that obtain wi wi'
      where a: "for_items ?body (take i items) w = (Inr (take i rs), wi)"
        and s: "for_items ?body [items ! i] wi = (Inr [rs ! i], wi')"
        and b: "?body (items ! i) wi = (Inr (rs ! i), wi')"
        and n: "for_items ?body (take (Suc i) items) w = (Inr (take (Suc i) rs), wi')"
      by blast
    have f: "rs ! i = \<lparr> r_success = False, r_result = None, r_error = msg, r_id = None,
                        r_item = items ! i \<rparr> \<and> wi' = wk"
      if "process (items ! i) wi = (Inl e, wk)" "message_of e = Inr msg" for e wk msg
      using b that by (simp add: custom_item_def caught_readable)
    have g: "rs ! i = \<lparr> r_success = True, r_result = Some res, r_error = None, r_id = None,
                        r_item = items ! i \<rparr> \<and> wi' = wk"
      if "process (items ! i) wi = (Inr res, wk)" for res wk
      using b that by (simp add: custom_item_def succeeded_result_def)
    from a s n f g show ?thesis unfolding ex by blast
  qed
  with run items show ?thesis unfolding ex by blast
qed

text \<open>
  Claim C8, as stated, fails when the collaborator rejects with \<open>null\<close>: \<open>handleError\<close>
  reads \<open>error.message\<close> and throws inside the catch block, which ends the loop. With a
  repository whose \<open>create\<close> rejects with \<open>null\<close> for the second of three items, the
  create handler rejects with that TypeError after two calls of \<open>create\<close>: no item gets
  a result and the third item is never processed.
\<close>

theorem item_errors_isolated_counterexample:
  "create_execute rejecting_options [JNum 1, JNull, JNum 3] 0
     = (Inl (Error (type_error_message ''null'' ''message'')), 2)"
  by (simp add: create_execute_def rejecting_options_def rejecting_repository_def
      BATCH_OPERATIONS_CONFIG_def create_item_def validation_step_def caught_def
      handleError_def)

text \<open>
  Claim C8, amended. Let the collaborator (and the validator, for create and update)
  throw neither \<open>null\<close> nor \<open>undefined\<close>. Then each of the four handlers, given its
  collaborator, returns one result per item, in the order of the items. The result of
  item \<open>i\<close> is the one the handler gives for that item alone in the world the items
  before it left, and the items after it start from the world it left. If the
  collaborator throws on item \<open>i\<close>, the item's result has \<open>success: false\<close>, the thrown
  value's message as its error (no error when the value has no message) and the item;
  if the collaborator returns, the result has \<open>success: true\<close>, the returned value and
  the item (and the identifier, for delete). Either way the world after item \<open>i\<close> is the
  one the collaborator's call left.
\<close>

theorem item_errors_isolated:
  "(repository opts = Some repo \<and> repo_create repo = Some create
      \<and> (\<forall>item w e. fst (create item w) = Inl e \<longrightarrow> message_readable e)
      \<and> (\<forall>v item w e. validateItem opts = Some v \<and> fst (v item w) = Inl e \<longrightarrow>
            message_readable e) \<longrightarrow>
      (\<exists>rs w'. create_execute opts items w = (Inr rs, w') \<and> map r_item rs = items \<and>
         (\<forall>i<length items. \<exists>wi wi'.
             create_execute opts (take i items) w = (Inr (take i rs), wi)
           \<and> create_execute opts [items ! i] wi = (Inr [rs ! i], wi')
           \<and> create_execute opts (take (Suc i) items) w = (Inr (take (Suc i) rs), wi')
           \<and> (\<forall>wj e wk msg.
                  validation_step (validateItem opts) (items ! i) wi = (Inr None, wj)
                \<and> create (items ! i) wj = (Inl e, wk) \<and> message_of e = Inr msg \<longrightarrow>
                  rs ! i = \<lparr> r_success = False, r_result = None, r_error = msg, r_id = None,
                             r_item = items ! i \<rparr> \<and> wi' = wk)
           \<and> (\<forall>wj res wk.
                  validation_step (validateItem opts) (items ! i) wi = (Inr None, wj)
                \<and> create (items ! i) wj = (Inr res, wk) \<longrightarrow>
                  rs ! i = \<lparr> r_success = True, r_result = Some res, r_error = None,
                             r_id = None, r_item = items ! i \<rparr> \<and> wi' = wk))))
 \<and> (repository opts = Some repo \<and> repo_update repo = Some update
      \<and> (\<forall>ident item w e. fst (update ident item w) = Inl e \<longrightarrow> message_readable e)
      \<and> (\<forall>v item w e. validateItem opts = Some v \<and> fst (v item w) = Inl e \<longrightarrow>
            message_readable e) \<longrightarrow>
      (\<exists>rs w'. update_execute opts items w = (Inr rs, w') \<and> map r_item rs = items \<and>
         (\<forall>i<length items. \<exists>wi wi'.
             update_execute opts (take i items) w = (Inr (take i rs), wi)
           \<and> update_execute opts [items ! i] wi = (Inr [rs ! i], wi')
           \<and> update_execute opts (take (Suc i) items) w = (Inr (take (Suc i) rs), wi')
           \<and> (\<forall>ident wj e wk msg.
                  get_prop (items ! i) (id_field_of opts) = Inr ident \<and> truthy ident
                \<and> validation_step (validateItem opts) (items ! i) wi = (Inr None, wj)
                \<and> update ident (items ! i) wj = (Inl e, wk) \<and> message_of e = Inr msg \<longrightarrow>
                  rs ! i = \<lparr> r_success = False, r_result = None, r_error = msg, r_id = None,
                             r_item = items ! i \<rparr> \<and> wi' = wk)
           \<and> (\<forall>ident wj res wk.
                  get_prop (items ! i) (id_field_of opts) = Inr ident \<and> truthy ident
                \<and> validation_step (validateItem opts) (items ! i) wi = (Inr None, wj)
                \<and> update ident (items ! i) wj = (Inr res, wk) \<longrightarrow>
                  rs ! i = \<lparr> r_success = True, r_result = Some res, r_error = None,
                             r_id = None, r_item = items ! i \<rparr> \<and> wi' = wk))))
 \<and> (repository opts = Some repo \<and> repo_delete repo = Some delete
      \<and> (\<forall>ident w e. fst (delete ident w) = Inl e \<longrightarrow> message_readable e) \<longrightarrow>
      (\<exists>rs w'. delete_execute opts items w = (Inr rs, w') \<and> map r_item rs = items \<and>
         (\<forall>i<length items. \<exists>wi wi'.
             delete_execute opts (take i items) w = (Inr (take i rs), wi)
           \<and> delete_execute opts [items ! i] wi = (Inr [rs ! i], wi')
           \<and> delete_execute opts (take (Suc i) items) w = (Inr (take (Suc i) rs), wi')
           \<and> (\<forall>ident e wk msg.
                  (if typeof_object (items ! i) then get_prop (items ! i) (id_field_of opts)
                   else Inr (items ! i)) = Inr ident \<and> truthy ident
                \<and> delete ident wi = (Inl e, wk) \<and> message_of e = Inr msg \<longrightarrow>
                  rs ! i = \<lparr> r_success = False, r_result = None, r_error = msg, r_id = None,
                             r_item = items ! i \<rparr> \<and> wi' = wk)
           \<and> (\<forall>ident res wk.
                  (if typeof_object (items ! i) then get_prop (items ! i) (id_field_of opts)
                   else Inr (items ! i)) = Inr ident \<and> truthy ident
                \<and> delete ident wi = (Inr res, wk) \<longrightarrow>
                  rs ! i = \<lparr> r_success = True, r_result = Some res, r_error = None,
                             r_id = Some ident, r_item = items ! i \<rparr> \<and> wi' = wk))))
 \<and> (processor opts = Some process
      \<and> (\<forall>item w e. fst (process item w) = Inl e \<longrightarrow> message_readable e) \<longrightarrow>
      (\<exists>rs w'. custom_execute opts items w = (Inr rs, w') \<and> map r_item rs = items \<and>
         (\<forall>i<length items. \<exists>wi wi'.
             custom_execute opts (take i items) w = (Inr (take i rs), wi)
           \<and> custom_execute opts [items ! i] wi = (Inr [rs ! i], wi')
           \<and> custom_execute opts (take (Suc i) items) w = (Inr (take (Suc i) rs), wi')
           \<and> (\<forall>e wk msg.
                  process (items ! i) wi = (Inl e, wk) \<and> message_of e = Inr msg \<longrightarrow>
                  rs ! i = \<lparr> r_success = False, r_result = None, r_error = msg, r_id = None,
                             r_item = items ! i \<rparr> \<and> wi' = wk)
           \<and> (\<forall>res wk.
                  process (items ! i) wi = (Inr res, wk) \<longrightarrow>
                  rs ! i = \<lparr> r_success = True, r_result = Some res, r_error = None,
                             r_id = None, r_item = items ! i \<rparr> \<and> wi' = wk))))"
proof (intro conjI impI)
  assume h: "repository opts = Some repo \<and> repo_create repo = Some create
      \<and> (\<forall>item w e. fst (create item w) = Inl e \<longrightarrow> message_readable e)
      \<and> (\<forall>v item w e. validateItem opts = Some v \<and> fst (v item w) = Inl e \<longrightarrow>
            message_readable e)"
  from h have a: "repository opts = Some repo" and b: "repo_create repo = Some create"
    and c: "\<forall>item w e. fst (create item w) = Inl e \<longrightarrow> message_readable e"
    and d: "\<forall>v item w e. validateItem opts = Some v \<and> fst (v item w) = Inl e \<longrightarrow>
              message_readable e"
    by blast+
  from a b c d show "\<exists>rs w'. create_execute opts items w = (Inr rs, w') \<and> map r_item rs = items \<and>
         (\<forall>i<length items. \<exists>wi wi'.
             create_execute opts (take i items) w = (Inr (take i rs), wi)
           \<and> create_execute opts [items ! i] wi = (Inr [rs ! i], wi')
           \<and> create_execute opts (take (Suc i) items) w = (Inr (take (Suc i) rs), wi')
           \<and> (\<forall>wj e wk msg.
                  validation_step (validateItem opts) (items ! i) wi = (Inr None, wj)
                \<and> create (items ! i) wj = (Inl e, wk) \<and> message_of e = Inr msg \<longrightarrow>
                  rs ! i = \<lparr> r_success = False, r_result = None, r_error = msg, r_id = None,
                             r_item = items ! i \<rparr> \<and> wi' = wk)
           \<and> (\<forall>wj res wk.
                  validation_step (validateItem opts) (items ! i) wi = (Inr None, wj)
                \<and> create (items ! i) wj = (Inr res, wk) \<longrightarrow>
                  rs ! i = \<lparr> r_success = True, r_result = Some res, r_error = None,
                             r_id = None, r_item = items ! i \<rparr> \<and> wi' = wk))"
    by (rule create_isolated)
next
  assume h: "repository opts = Some repo \<and> repo_update repo = Some update
      \<and> (\<forall>ident item w e. fst (update ident item w) = Inl e \<longrightarrow> message_readable e)
      \<and> (\<forall>v item w e. validateItem opts = Some v \<and> fst (v item w) = Inl e \<longrightarrow>
            message_readable e)"
  from h have a: "repository opts = Some repo" and b: "repo_update repo = Some update"
    and c: "\<forall>ident item w e. fst (update ident item w) = Inl e \<longrightarrow> message_readable e"
    and d: "\<forall>v item w e. validateItem opts = Some v \<and> fst (v item w) = Inl e \<longrightarrow>
              message_readable e"
    by blast+
  from a b c d show "\<exists>rs w'. update_execute opts items w = (Inr rs, w') \<and> map r_item rs = items \<and>
         (\<forall>i<length items. \<exists>wi wi'.
             update_execute opts (take i items) w = (Inr (take i rs), wi)
           \<and> update_execute opts [items ! i] wi = (Inr [rs ! i], wi')
           \<and> update_execute opts (take (Suc i) items) w = (Inr (take (Suc i) rs), wi')
           \<and> (\<forall>ident wj e wk msg.
                  get_prop (items ! i) (id_field_of opts) = Inr ident \<and> truthy ident
                \<and> validation_step (validateItem opts) (items ! i) wi = (Inr None, wj)
                \<and> update ident (items ! i) wj = (Inl e, wk) \<and> message_of e = Inr msg \<longrightarrow>
                  rs ! i = \<lparr> r_success = False, r_result = None, r_error = msg, r_id = None,
                             r_item = items ! i \<rparr> \<and> wi' = wk)
           \<and> (\<forall>ident wj res wk.
                  get_prop (items ! i) (id_field_of opts) = Inr ident \<and> truthy ident
                \<and> validation_step (validateItem opts) (items ! i) wi = (Inr None, wj)
                \<and> update ident (items ! i) wj = (Inr res, wk) \<longrightarrow>
                  rs ! i = \<lparr> r_success = True, r_result = Some res, r_error = None,
                             r_id = None, r_item = items ! i \<rparr> \<and> wi' = wk))"
    by (rule update_isolated)
next
  assume h: "repository opts = Some repo \<and> repo_delete repo = Some delete
      \<and> (\<forall>ident w e. fst (delete ident w) = Inl e \<longrightarrow> message_readable e)"
  from h have a: "repository opts = Some repo" and b: "repo_delete repo = Some delete"
    and c: "\<forall>ident w e. fst (delete ident w) = Inl e \<longrightarrow> message_readable e"
    by blast+
  from a b c show "\<exists>rs w'. delete_execute opts items w = (Inr rs, w') \<and> map r_item rs = items \<and>
         (\<forall>i<length items. \<exists>wi wi'.
             delete_execute opts (take i items) w = (Inr (take i rs), wi)
           \<and> delete_execute opts [items ! i] wi = (Inr [rs ! i], wi')
           \<and> delete_execute opts (take (Suc i) items) w = (Inr (take (Suc i) rs), wi')
           \<and> (\<forall>ident e wk msg.
                  (if typeof_object (items ! i) then get_prop (items ! i) (id_field_of opts)
                   else Inr (items ! i)) = Inr ident \<and> truthy ident
                \<and> delete ident wi = (Inl e, wk) \<and> message_of e = Inr msg \<longrightarrow>
                  rs ! i = \<lparr> r_success = False, r_result = None, r_error = msg, r_id = None,
                             r_item = items ! i \<rparr> \<and> wi' = wk)
           \<and> (\<forall>ident res wk.
                  (if typeof_object (items ! i) then get_prop (items ! i) (id_field_of opts)
                   else Inr (items ! i)) = Inr ident \<and> truthy ident
                \<and> delete ident wi = (Inr res, wk) \<longrightarrow>
                  rs ! i = \<lparr> r_success = True, r_result = Some res, r_error = None,
                             r_id = Some ident, r_item = items ! i \<rparr> \<and> wi' = wk))"
    by (rule delete_isolated)
next
  assume h: "processor opts = Some process
      \<and> (\<forall>item w e. fst (process item w) = Inl e \<longrightarrow> message_readable e)"
  from h have a: "processor opts = Some process"
    and c: "\<forall>item w e. fst (process item w) = Inl e \<longrightarrow> message_readable e"
    by blast+
  from a c show "\<exists>rs w'. custom_execute opts items w = (Inr rs, w') \<and> map r_item rs = items \<and>
         (\<forall>i<length items. \<exists>wi wi'.
             custom_execute opts (take i items) w = (Inr (take i rs), wi)
           \<and> custom_execute opts [items ! i] wi = (Inr [rs ! i], wi')
           \<and> custom_execute opts (take (Suc i) items) w = (Inr (take (Suc i) rs), wi')
           \<and> (\<forall>e wk msg.
                  process (items ! i) wi = (Inl e, wk) \<and> message_of e = Inr msg \<longrightarrow>
                  rs ! i = \<lparr> r_success = False, r_result = None, r_error = msg, r_id = None,
                             r_item = items ! i \<rparr> \<and> wi' = wk)
           \<and> (\<forall>res wk.
                  process (items ! i) wi = (Inr res, wk) \<longrightarrow>
                  rs ! i = \<lparr> r_success = True, r_result = Some res, r_error = None,
                             r_id = None, r_item = items ! i \<rparr> \<and> wi' = wk))"
    by (rule custom_isolated)
qed

theorem item_errors_isolated_witness:
  "create_execute example_options [JNum 1, JNull, JBool False, JNum 3] 0
     = (Inr [\<lparr> r_success = True, r_result = Some (JNum 1), r_error = None, r_id = None,
               r_item = JNum 1 \<rparr>,
             \<lparr> r_success = False, r_result = None, r_error = Some ''create failed'',
               r_id = None, r_item = JNull \<rparr>,
             \<lparr> r_success = False, r_result = None, r_error = None, r_id = None,
               r_item = JBool False \<rparr>,
             \<lparr> r_success = True, r_result = Some (JNum 3), r_error = None, r_id = None,
               r_item = JNum 3 \<rparr>], 4)
   \<and> update_execute example_options
       [JObj [(''id'', JNum 1)], JObj [(''id'', JNum 2)], JObj [(''id'', JNum 3)]] 0
     = (Inr [\<lparr> r_success = True, r_result = Some (JObj [(''id'', JNum 1)]), r_error = None,
               r_id = None, r_item = JObj [(''id'', JNum 1)] \<rparr>,
             \<lparr> r_success = False, r_result = None, r_error = Some ''update failed'',
               r_id = None, r_item = JObj [(''id'', JNum 2)] \<rparr>,
             \<lparr> r_success = True, r_result = Some (JObj [(''id'', JNum 3)]), r_error = None,
               r_id = None, r_item = JObj [(''id'', JNum 3)] \<rparr>], 3)
   \<and> delete_execute example_options [JNum 2, JNum 5] 0
     = (Inr [\<lparr> r_success = False, r_result = None, r_error = Some ''delete failed'',
               r_id = None, r_item = JNum 2 \<rparr>,
             \<lparr> r_success = True, r_result = Some (JBool True), r_error = None,
               r_id = Some (JNum 5), r_item = JNum 5 \<rparr>], 2)
   \<and> custom_execute example_options [JNum 2, JNum 5] 0
     = (Inr [\<lparr> r_success = False, r_result = None, r_error = Some ''processing failed'',
               r_id = None, r_item = JNum 2 \<rparr>,
             \<lparr> r_success = True, r_result = Some (JNum 5), r_error = None, r_id = None,
               r_item = JNum 5 \<rparr>], 2)"
proof -
  let ?create = "\<lambda>item w. (if item = JNull then Inl (Error ''create failed'')
                           else if item = JBool False then Inl NoMessage
                           else Inr item, Suc w)"
  let ?update = "\<lambda>ident item w.
                   (if ident = JNum 2 then Inl (Error ''update failed'') else Inr item, Suc w)"
  let ?delete = "\<lambda>ident w. (if ident = JNum 2 then Inl (Error ''delete failed'')
                             else Inr (JBool True), Suc w)"
  have c: "repository example_options = Some counting_repository
           \<and> repo_create counting_repository = Some ?create
           \<and> (\<forall>item w e. fst (?create item (w::nat)) = Inl e \<longrightarrow> message_readable e)
           \<and> (\<forall>v item w e. validateItem example_options = Some v \<and> fst (v item w) = Inl e \<longrightarrow>
                 message_readable e)"
    by (auto simp: example_options_def counting_repository_def BATCH_OPERATIONS_CONFIG_def
        split: if_splits)
  have u: "repository example_options = Some counting_repository
           \<and> repo_update counting_repository = Some ?update
           \<and> (\<forall>ident item w e. fst (?update ident item (w::nat)) = Inl e \<longrightarrow> message_readable e)
           \<and> (\<forall>v item w e. validateItem example_options = Some v \<and> fst (v item w) = Inl e \<longrightarrow>
                 message_readable e)"
    by (auto simp: example_options_def counting_repository_def BATCH_OPERATIONS_CONFIG_def
        split: if_splits)
  have d: "repository example_options = Some counting_repository
           \<and> repo_delete counting_repository = Some ?delete
           \<and> (\<forall>ident w e. fst (?delete ident (w::nat)) = Inl e \<longrightarrow> message_readable e)"
    by (auto simp: example_options_def counting_repository_def BATCH_OPERATIONS_CONFIG_def
        split: if_splits)
  have p: "processor example_options = Some counting_processor
           \<and> (\<forall>item w e. fst (counting_processor item w) = Inl e \<longrightarrow> message_readable e)"
    by (auto simp: example_options_def counting_processor_def BATCH_OPERATIONS_CONFIG_def
        split: if_splits)
  note t = item_errors_isolated [where opts = example_options and repo = counting_repository
      and process = counting_processor and w = 0]
  note t1 = t [where items = "[JNum 1, JNull, JBool False, JNum 3]", THEN conjunct1,
      THEN mp, OF c]
  note t2 = t [where items = "[JObj [(''id'', JNum 1)], JObj [(''id'', JNum 2)],
      JObj [(''id'', JNum 3)]]", THEN conjunct2, THEN conjunct1, THEN mp, OF u]
  note t3 = t [where items = "[JNum 2, JNum 5]", THEN conjunct2, THEN conjunct2,
      THEN conjunct1, THEN mp, OF d]
  note t4 = t [where items = "[JNum 2, JNum 5]", THEN conjunct2, THEN conjunct2,
      THEN conjunct2, THEN mp, OF p]
  have e1: "create_execute example_options [JNum 1, JNull, JBool False, JNum 3] 0
     = (Inr [\<lparr> r_success = True, r_result = Some (JNum 1), r_error = None, r_id = None,
               r_item = JNum 1 \<rparr>,
             \<lparr> r_success = False, r_result = None, r_error = Some ''create failed'',
               r_id = None, r_item = JNull \<rparr>,
             \<lparr> r_success = False, r_result = None, r_error = None, r_id = None,
               r_item = JBool False \<rparr>,
             \<lparr> r_success = True, r_result = Some (JNum 3), r_error = None, r_id = None,
               r_item = JNum 3 \<rparr>], 4)"
    by (simp add: create_execute_def example_options_def counting_repository_def
        BATCH_OPERATIONS_CONFIG_def create_item_def validation_step_def caught_def
        handleError_def succeeded_result_def)
  have e2: "update_execute example_options
       [JObj [(''id'', JNum 1)], JObj [(''id'', JNum 2)], JObj [(''id'', JNum 3)]] 0
     = (Inr [\<lparr> r_success = True, r_result = Some (JObj [(''id'', JNum 1)]), r_error = None,
               r_id = None, r_item = JObj [(''id'', JNum 1)] \<rparr>,
             \<lparr> r_success = False, r_result = None, r_error = Some ''update failed'',
               r_id = None, r_item = JObj [(''id'', JNum 2)] \<rparr>,
             \<lparr> r_success = True, r_result = Some (JObj [(''id'', JNum 3)]), r_error = None,
               r_id = None, r_item = JObj [(''id'', JNum 3)] \<rparr>], 3)"
    by (simp add: update_execute_def example_options_def counting_repository_def
        BATCH_OPERATIONS_CONFIG_def update_item_def validation_step_def id_field_of_def
        caught_def handleError_def succeeded_result_def)
  have e3: "delete_execute example_options [JNum 2, JNum 5] 0
     = (Inr [\<lparr> r_success = False, r_result = None, r_error = Some ''delete failed'',
               r_id = None, r_item = JNum 2 \<rparr>,
             \<lparr> r_success = True, r_result = Some (JBool True), r_error = None,
               r_id = Some (JNum 5), r_item = JNum 5 \<rparr>], 2)"
    by (simp add: delete_execute_def example_options_def counting_repository_def
        BATCH_OPERATIONS_CONFIG_def delete_item_def id_field_of_def
        caught_def handleError_def succeeded_result_def)
  have e4: "custom_execute example_options [JNum 2, JNum 5] 0
     = (Inr [\<lparr> r_success = False, r_result = None, r_error = Some ''processing failed'',
               r_id = None, r_item = JNum 2 \<rparr>,
             \<lparr> r_success = True, r_result = Some (JNum 5), r_error = None, r_id = None,
               r_item = JNum 5 \<rparr>], 2)"
    by (simp add: custom_execute_def example_options_def counting_processor_def
        BATCH_OPERATIONS_CONFIG_def custom_item_def
        caught_def handleError_def succeeded_result_def)
  show ?thesis
    using t1 t2 t3 t4 by (intro conjI) (rule e1 e2 e3 e4)+
qed



section \<open>Partition into batches\<close>

lemma ceil_step:
  assumes "0 < b" "i < n"
  shows "(n - i + b - 1) div b = Suc ((n - (i + b) + b - 1) div b)"
proof (cases "i + b \<le> n")
  case True
  define d where "d = n - (i + b)"
  have a: "n - i + b - 1 = (d + b - 1) + b" using True assms unfolding d_def by linarith
  have "((d + b - 1) + b) div b = Suc ((d + b - 1) div b)"
    using assms(1) by (simp only: div_add_self2)
  then show ?thesis unfolding a d_def .
next
  case False
  then have z: "n - (i + b) = 0" by linarith
  have "b * 1 \<le> n - i + b - 1" "n - i + b - 1 < b * Suc 1" using assms False by simp_all
  then have "(n - i + b - 1) div b = 1"
    by (rule div_nat_eqI)
  moreover have "(b - 1) div b = 0" using assms(1) by simp
  ultimately show ?thesis unfolding z by simp
qed

lemma upt_0_Suc: "[0..<Suc m] = 0 # map Suc [0..<m]"
  by (simp only: map_Suc_upt upt_conv_Cons [of 0 "Suc m"] zero_less_Suc)

lemma slices_step:
  "map (\<lambda>k. take b (drop (i + k * b) items)) [0..<Suc m] =
     take b (drop i items) # map (\<lambda>k. take b (drop (i + b + k * b) items)) [0..<m]"
  unfolding upt_0_Suc by (simp add: comp_def add.assoc)

lemma make_batches_closed:
  assumes "0 < b"
  shows "make_batches b items i acc =
     Some (acc @ map (\<lambda>k. take b (drop (i + k * b) items))
                  [0..<(length items - i + b - 1) div b])"
proof (induction "length items - i" arbitrary: i acc rule: less_induct)
  case less
  show ?case
  proof (cases "i < length items")
    case False
    then have "(length items - i + b - 1) div b = 0" using assms by simp
    with False show ?thesis by (simp add: make_batches.simps [of b items i])
  next
    case True
    have "length items - (i + b) < length items - i" using True assms by linarith
    from less [OF this]
    have ih: "make_batches b items (i + b) (acc @ [take b (drop i items)]) =
      Some ((acc @ [take b (drop i items)]) @ map (\<lambda>k. take b (drop (i + b + k * b) items))
                  [0..<(length items - (i + b) + b - 1) div b])" .
    have "make_batches b items i acc
            = make_batches b items (i + b) (acc @ [take b (drop i items)])"
      using True by (simp add: make_batches.simps [of b items i])
    then show ?thesis
      unfolding ih ceil_step [OF assms True] slices_step by simp
  qed
qed

lemma concat_slices:
  assumes "0 < b"
  shows "concat (map (\<lambda>k. take b (drop (i + k * b) items)) [0..<(length items - i + b - 1) div b])
          = drop i items"
proof (induction "length items - i" arbitrary: i rule: less_induct)
  case less
  show ?case
  proof (cases "i < length items")
    case False
    then have "(length items - i + b - 1) div b = 0" using assms by simp
    with False show ?thesis by simp
  next
    case True
    have "length items - (i + b) < length items - i" using True assms by linarith
    note ih = less [OF this]
    have "take b (drop i items) @ drop (i + b) items = drop i items"
      by (metis add.commute append_take_drop_id drop_drop)
    then show ?thesis
      unfolding ceil_step [OF assms True] slices_step using ih by simp
  qed
qed







section \<open>The scheduler\<close>

lemma processBatch_effect:
  assumes "0 < retryAttempts opts"
    and "\<And>w rs w1. op_execute operation (batches ! i) w = (Inr rs, w1) \<Longrightarrow> Q i rs"
    and "\<And>w e. fst (op_execute operation (batches ! i) w) = Inl e \<Longrightarrow> message_readable e"
    and "\<And>msg. Q i (batch_failure msg (batches ! i))"
  shows "\<exists>rs w1. processBatch operation batches opts fl rnd i s =
           s\<lparr> results := (results s)[i := Some rs], active := active s - 1, world := w1 \<rparr>
         \<and> Q i rs"
proof -
  obtain r sl w1 where run: "executeWithRetry (op_execute operation (batches ! i))
      (retryAttempts opts) (retryDelay opts) fl (rnd i) (world s) = (r, sl, w1)"
    by (metis prod_cases3)
  from executeWithRetry_result [OF assms(1) run]
  show ?thesis
  proof (elim disjE exE conjE)
    fix v w0 w2
    assume "r = Inr v" "op_execute operation (batches ! i) w0 = (Inr v, w2)"
    then show ?thesis using run assms(2) by (auto simp: processBatch_def Let_def)
  next
    fix e w0 w2
    assume r: "r = Inl e" and "op_execute operation (batches ! i) w0 = (Inl e, w2)"
    then have "fst (op_execute operation (batches ! i) w0) = Inl e" by simp
    then have "message_readable e" by (rule assms(3))
    then obtain msg where "message_of e = Inr msg" by (auto simp: message_readable_iff)
    with r show ?thesis using run assms(4) by (auto simp: processBatch_def Let_def)
  qed
qed

lemma start_batches_inv:
  "sched_inv Q n s \<Longrightarrow>
     sched_inv Q n (start_batches maxC n s)
     \<and> 2 * (n - nextBatchIndex (start_batches maxC n s)) + active (start_batches maxC n s)
         \<le> 2 * (n - nextBatchIndex s) + active s
     \<and> active s \<le> active (start_batches maxC n s)
     \<and> (active s < maxC \<and> nextBatchIndex s < n \<longrightarrow> active s < active (start_batches maxC n s))
     \<and> \<not> (active (start_batches maxC n s) < maxC \<and> nextBatchIndex (start_batches maxC n s) < n)"
proof (induction maxC n s rule: start_batches.induct)
  case (1 maxC n s)
  show ?case
  proof (cases "active s < maxC \<and> nextBatchIndex s < n")
    case False
    then have "start_batches maxC n s = s" by (auto simp: start_batches.simps [of maxC n s])
    with 1 False show ?thesis by simp
  next
    case True
    let ?s1 = "s\<lparr> nextBatchIndex := Suc (nextBatchIndex s), active := Suc (active s),
                 pending := pending s @ [nextBatchIndex s] \<rparr>"
    have eq: "start_batches maxC n s = start_batches maxC n ?s1"
      using True by (simp add: start_batches.simps [of maxC n s])
    have inv1: "sched_inv Q n ?s1"
      using "1.prems" True by (auto simp: sched_inv_def less_Suc_eq)
    have ar: "Suc (2 * (n - Suc (nextBatchIndex s)) + active s)
                \<le> 2 * (n - nextBatchIndex s) + active s"
      using True by linarith
    from "1.IH" [OF True inv1]
    have a: "sched_inv Q n (start_batches maxC n ?s1)"
      and b: "2 * (n - nextBatchIndex (start_batches maxC n ?s1))
                + active (start_batches maxC n ?s1)
              \<le> Suc (2 * (n - Suc (nextBatchIndex s)) + active s)"
      and c: "Suc (active s) \<le> active (start_batches maxC n ?s1)"
      and d: "\<not> (active (start_batches maxC n ?s1) < maxC
                 \<and> nextBatchIndex (start_batches maxC n ?s1) < n)"
      by simp_all
    from b ar have b': "2 * (n - nextBatchIndex (start_batches maxC n ?s1))
                + active (start_batches maxC n ?s1)
              \<le> 2 * (n - nextBatchIndex s) + active s"
      by (rule le_trans)
    from c have c': "active s \<le> active (start_batches maxC n ?s1)"
      and c'': "active s < active (start_batches maxC n ?s1)" by simp_all
    show ?thesis unfolding eq using a b' c' c'' d by blast
  qed
qed

lemma remove_nth_distinct:
  assumes "distinct xs" "k < length xs"
  shows "distinct (take k xs @ drop (Suc k) xs)
       \<and> set (take k xs @ drop (Suc k) xs) = set xs - {xs ! k}
       \<and> length (take k xs @ drop (Suc k) xs) = length xs - 1"
proof -
  have xs: "xs = take k xs @ xs ! k # drop (Suc k) xs"
    using assms(2) by (rule id_take_nth_drop)
  have "distinct (take k xs @ xs ! k # drop (Suc k) xs)"
    using assms(1) xs by simp
  then have d: "distinct (take k xs @ drop (Suc k) xs)"
    and n: "xs ! k \<notin> set (take k xs @ drop (Suc k) xs)" by auto
  have "set xs = insert (xs ! k) (set (take k xs @ drop (Suc k) xs))"
    by (subst xs) simp
  with n have "set (take k xs @ drop (Suc k) xs) = set xs - {xs ! k}" by blast
  moreover have "length (take k xs @ drop (Suc k) xs) = length xs - 1"
    using assms(2) by simp
  ultimately show ?thesis using d by blast
qed

lemma settle_inv:
  assumes pos: "0 < retryAttempts opts"
    and ok: "\<And>i w rs w1. i < length batches \<Longrightarrow>
               op_execute operation (batches ! i) w = (Inr rs, w1) \<Longrightarrow> Q i rs"
    and rd: "\<And>i w e. i < length batches \<Longrightarrow>
               fst (op_execute operation (batches ! i) w) = Inl e \<Longrightarrow> message_readable e"
    and failed: "\<And>i msg. i < length batches \<Longrightarrow> Q i (batch_failure msg (batches ! i))"
    and inv: "sched_inv Q (length batches) s"
    and ne: "pending s \<noteq> []"
  shows "sched_inv Q (length batches) (settle operation batches opts fl rnd choice s)
       \<and> Suc (active (settle operation batches opts fl rnd choice s)) = active s
       \<and> nextBatchIndex (settle operation batches opts fl rnd choice s) = nextBatchIndex s"
proof -
  let ?k = "choice mod length (pending s)"
  let ?i = "pending s ! ?k"
  let ?p = "take ?k (pending s) @ drop (Suc ?k) (pending s)"
  let ?s1 = "s\<lparr> pending := ?p \<rparr>"
  have k: "?k < length (pending s)" using ne by simp
  then have mem: "?i \<in> set (pending s)" by simp
  have started: "?i < nextBatchIndex s" using inv mem by (auto simp: sched_inv_def)
  then have i: "?i < length batches" using inv by (simp add: sched_inv_def)
  from inv have dist: "distinct (pending s)" by (simp add: sched_inv_def)
  from remove_nth_distinct [OF dist k]
  have p: "distinct ?p" "set ?p = set (pending s) - {?i}" "length ?p = length (pending s) - 1"
    by simp_all
  have "\<exists>rs w1. processBatch operation batches opts fl rnd ?i ?s1 =
      ?s1\<lparr> results := (results ?s1)[?i := Some rs], active := active ?s1 - 1, world := w1 \<rparr>
      \<and> Q ?i rs"
  proof (rule processBatch_effect [OF pos])
    show "Q ?i rs" if "op_execute operation (batches ! ?i) w = (Inr rs, w1)" for w rs w1
      using i that by (rule ok)
    show "message_readable e" if "fst (op_execute operation (batches ! ?i) w) = Inl e" for w e
      using i that by (rule rd)
    show "Q ?i (batch_failure msg (batches ! ?i))" for msg
      using i by (rule failed)
  qed
  then obtain rs w1 where run: "processBatch operation batches opts fl rnd ?i ?s1 =
      ?s1\<lparr> results := (results ?s1)[?i := Some rs], active := active ?s1 - 1, world := w1 \<rparr>"
    and q: "Q ?i rs" by blast
  have eq: "settle operation batches opts fl rnd choice s =
      ?s1\<lparr> results := (results ?s1)[?i := Some rs], active := active ?s1 - 1, world := w1 \<rparr>"
    using ne run by (simp add: settle_def Let_def)
  have act: "0 < active s" using inv ne by (simp add: sched_inv_def)
  have len: "length (results s) = length batches" using inv by (simp add: sched_inv_def)
  have slots: "\<exists>r. (results s)[?i := Some rs] ! j = Some r \<and> Q j r"
    if "j < nextBatchIndex s" "j \<notin> set ?p" for j
  proof (cases "j = ?i")
    case True
    then show ?thesis using q i len by simp
  next
    case False
    with that p(2) have "j \<notin> set (pending s)" by blast
    with inv that(1) obtain r where "results s ! j = Some r" "Q j r"
      by (auto simp: sched_inv_def)
    with False show ?thesis by simp
  qed
  have "sched_inv Q (length batches)
      (?s1\<lparr> results := (results ?s1)[?i := Some rs], active := active ?s1 - 1, world := w1 \<rparr>)"
    unfolding sched_inv_def using inv p slots
    by (simp add: sched_inv_def) blast
  then show ?thesis unfolding eq using act by simp
qed

lemma admission_loop_ends:
  assumes maxC: "0 < maxConcurrent opts"
    and pos: "0 < retryAttempts opts"
    and ok: "\<And>i w rs w1. i < length batches \<Longrightarrow>
               op_execute operation (batches ! i) w = (Inr rs, w1) \<Longrightarrow> Q i rs"
    and rd: "\<And>i w e. i < length batches \<Longrightarrow>
               fst (op_execute operation (batches ! i) w) = Inl e \<Longrightarrow> message_readable e"
    and failed: "\<And>i msg. i < length batches \<Longrightarrow> Q i (batch_failure msg (batches ! i))"
  shows "sched_inv Q (length batches) s \<Longrightarrow>
     \<exists>s'. admission_loop operation batches opts order fl rnd t s = Some s'
        \<and> sched_inv Q (length batches) s'
        \<and> nextBatchIndex s' = length batches \<and> active s' = 0"
proof (induction "2 * (length batches - nextBatchIndex s) + active s"
    arbitrary: s t rule: less_induct)
  case less
  let ?n = "length batches"
  show ?case
  proof (cases "nextBatchIndex s < ?n \<or> active s > 0")
    case False
    then have "admission_loop operation batches opts order fl rnd t s = Some s"
      by (subst admission_loop.simps) auto
    moreover have "nextBatchIndex s = ?n" "active s = 0"
      using False less.prems by (auto simp: sched_inv_def)
    ultimately show ?thesis using less.prems by simp
  next
    case True
    let ?s1 = "start_batches (maxConcurrent opts) ?n s"
    let ?s2 = "settle operation batches opts fl rnd (order t) ?s1"
    from start_batches_inv [OF less.prems, of "maxConcurrent opts"]
    have inv1: "sched_inv Q ?n ?s1"
      and m1: "2 * (?n - nextBatchIndex ?s1) + active ?s1
                \<le> 2 * (?n - nextBatchIndex s) + active s"
      and a1: "active s \<le> active ?s1"
      and grow: "active s < maxConcurrent opts \<and> nextBatchIndex s < ?n \<longrightarrow> active s < active ?s1"
      and full: "\<not> (active ?s1 < maxConcurrent opts \<and> nextBatchIndex ?s1 < ?n)"
      by simp_all
    have "0 < active ?s1"
    proof (cases "0 < active s")
      case True
      with a1 show ?thesis by simp
    next
      case False
      then have "active s = 0" by simp
      moreover from this have "nextBatchIndex s < ?n"
        using \<open>nextBatchIndex s < ?n \<or> active s > 0\<close> by simp
      ultimately show ?thesis using grow maxC by simp
    qed
    then have ne: "pending ?s1 \<noteq> []" using inv1 by (auto simp: sched_inv_def)
    have "sched_inv Q ?n ?s2 \<and> Suc (active ?s2) = active ?s1
        \<and> nextBatchIndex ?s2 = nextBatchIndex ?s1"
    proof (rule settle_inv [OF pos _ _ _ inv1 ne])
      show "Q i rs" if "i < ?n" "op_execute operation (batches ! i) w = (Inr rs, w1)"
        for i w rs w1 using that by (rule ok)
      show "message_readable e"
        if "i < ?n" "fst (op_execute operation (batches ! i) w) = Inl e" for i w e
        using that by (rule rd)
      show "Q i (batch_failure msg (batches ! i))" if "i < ?n" for i msg
        using that by (rule failed)
    qed
    then have inv2: "sched_inv Q ?n ?s2"
      and a2: "Suc (active ?s2) = active ?s1"
      and n2: "nextBatchIndex ?s2 = nextBatchIndex ?s1"
      by simp_all
    have "2 * (?n - nextBatchIndex ?s2) + active ?s2 < 2 * (?n - nextBatchIndex s) + active s"
      using m1 a2 n2 by linarith
    from less.hyps [OF this inv2, of "Suc t"]
    obtain s' where "admission_loop operation batches opts order fl rnd (Suc t) ?s2 = Some s'"
      "sched_inv Q ?n s'" "nextBatchIndex s' = ?n" "active s' = 0" by blast
    moreover have "admission_loop operation batches opts order fl rnd t s =
        admission_loop operation batches opts order fl rnd (Suc t) ?s2"
      using True by (subst admission_loop.simps) auto
    ultimately show ?thesis by simp
  qed
qed

lemma processBatchesInParallel_ends:
  assumes maxC: "0 < maxConcurrent opts"
    and pos: "0 < retryAttempts opts"
    and ok: "\<And>i w rs w1. i < length batches \<Longrightarrow>
               op_execute operation (batches ! i) w = (Inr rs, w1) \<Longrightarrow> Q i rs"
    and rd: "\<And>i w e. i < length batches \<Longrightarrow>
               fst (op_execute operation (batches ! i) w) = Inl e \<Longrightarrow> message_readable e"
    and failed: "\<And>i msg. i < length batches \<Longrightarrow> Q i (batch_failure msg (batches ! i))"
  shows "\<exists>rs w'. processBatchesInParallel operation batches opts order fl rnd w = Some (rs, w')
           \<and> length rs = length batches
           \<and> (\<forall>i<length batches. \<exists>r. rs ! i = Some r \<and> Q i r)"
proof -
  let ?s0 = "\<lparr> results = replicate (length batches) None, active = 0, nextBatchIndex = 0,
               pending = [], world = w \<rparr>"
  have inv0: "sched_inv Q (length batches) ?s0" by (simp add: sched_inv_def)
  have "\<exists>s'. admission_loop operation batches opts order fl rnd 0 ?s0 = Some s'
        \<and> sched_inv Q (length batches) s'
        \<and> nextBatchIndex s' = length batches \<and> active s' = 0"
  proof (rule admission_loop_ends [OF maxC pos _ _ _ inv0])
    show "Q i rs" if "i < length batches" "op_execute operation (batches ! i) w = (Inr rs, w1)"
      for i w rs w1 using that by (rule ok)
    show "message_readable e"
      if "i < length batches" "fst (op_execute operation (batches ! i) w) = Inl e" for i w e
      using that by (rule rd)
    show "Q i (batch_failure msg (batches ! i))" if "i < length batches" for i msg
      using that by (rule failed)
  qed
  then obtain s' where run: "admission_loop operation batches opts order fl rnd 0 ?s0 = Some s'"
    and inv: "sched_inv Q (length batches) s'"
    and fin: "nextBatchIndex s' = length batches" "active s' = 0" by blast
  from inv fin have "pending s' = []" by (simp add: sched_inv_def)
  with inv fin have "length (results s') = length batches"
    "\<forall>i<length batches. \<exists>r. results s' ! i = Some r \<and> Q i r"
    by (auto simp: sched_inv_def)
  then show ?thesis using run by (simp add: processBatchesInParallel_def)
qed

lemma make_batches_ends:
  assumes "0 < b"
  shows "\<exists>batches. make_batches b items 0 [] = Some batches \<and> concat batches = items"
  using make_batches_closed [OF assms, of items 0 "[]"] concat_slices [OF assms, of 0 items]
  by simp

lemma slice_items_ends:
  assumes "bsize \<noteq> Count 0"
  shows "\<exists>batches. slice_items bsize items = Some batches"
proof (cases bsize)
  case (Count b)
  with assms have "0 < b" by simp
  from make_batches_ends [OF this, of items] Count show ?thesis by (auto simp: slice_items_def)
next
  case NotANumber
  then show ?thesis by (simp add: slice_items_def)
qed

lemma flat_items:
  assumes "length rs = length batches"
    and "\<forall>i<length batches. \<exists>r. rs ! i = Some r \<and> map r_item r = batches ! i"
  shows "map r_item (flat rs) = concat batches"
proof -
  have "list_all2 (\<lambda>r b. \<exists>x. r = Some x \<and> map r_item x = b) rs batches"
    using assms by (simp add: list_all2_conv_all_nth)
  then show ?thesis
    by (induction rule: list_all2_induct) (auto simp: flat_def)
qed

lemma batch_failure_echo: "map r_item (batch_failure msg batch) = batch"
  by (simp add: batch_failure_def comp_def)

section \<open>\<open>execute\<close>: the summaries it returns\<close>

lemma execute_starts:
  assumes "enabled config" "handlers t = Some H" "H (merge config opts) = Inr operation"
    "op_validate operation items = Inr True" "items \<noteq> []"
    "slice_items (batchSize (merge config opts)) items = Some batches"
  shows "execute_start handlers config t items opts
           = Some (Scheduled operation batches (merge config opts))"
  using assms by (simp add: execute_start_def hasHandler_def getHandler_def Let_def)

lemma execute_finishes:
  assumes "processBatchesInParallel operation batches mergedOptions order fl rnd w
             = Some (brs, w1)"
    and "records_quietly config"
  shows "\<exists>w2. execute_finish config order fl rnd t items
                 (Scheduled operation batches mergedOptions) w
                = Some (Inr (result_summary (flat brs)), w2)"
proof (cases "profiling config")
  case False
  with assms(1) show ?thesis by (simp add: execute_finish_def Let_def)
next
  case True
  let ?m = "\<lparr> m_operation = ''batch_'' @ t,
              m_success = (length (filter (\<lambda>r. \<not> r_success r) (flat brs)) = 0),
              m_total = length items,
              m_successCount = length (filter (\<lambda>r. r_success r) (flat brs)),
              m_failureCount = length (filter (\<lambda>r. \<not> r_success r) (flat brs)) \<rparr>"
  obtain x w2 where c: "metricsCollector config ?m w1 = (x, w2)"
    by (cases "metricsCollector config ?m w1")
  from assms(2) True have "fst (metricsCollector config ?m w1) = None"
    unfolding records_quietly_def by blast
  with c have "x = None" by simp
  with assms(1) True c show ?thesis by (simp add: execute_finish_def Let_def)
qed

lemma execute_scheduled:
  assumes "enabled config" "handlers t = Some H" "H (merge config opts) = Inr operation"
    "op_validate operation items = Inr True" "items \<noteq> []"
    "slice_items (batchSize (merge config opts)) items = Some batches"
    "processBatchesInParallel operation batches (merge config opts) order fl rnd w
       = Some (brs, w1)"
    "records_quietly config"
  shows "\<exists>w2. execute handlers config order fl rnd t items opts w
           = Some (Inr (result_summary (flat brs)), w2)"
proof -
  have "execute_start handlers config t items opts
          = Some (Scheduled operation batches (merge config opts))"
    using assms(1-6) by (rule execute_starts)
  moreover have "\<exists>w2. execute_finish config order fl rnd t items
                 (Scheduled operation batches (merge config opts)) w
                = Some (Inr (result_summary (flat brs)), w2)"
    using assms(7,8) by (rule execute_finishes)
  ultimately show ?thesis by (simp add: execute_def)
qed

lemma execute_catch_shape:
  "execute_catch error n = Inr s \<Longrightarrow> \<exists>msg. s = error_summary msg n"
  by (auto simp: execute_catch_def split: sum.splits)

lemma execute_start_shape:
  assumes "execute_start handlers config t items opts = Some (Settled (Inr s))"
  shows "(s = disabled_summary \<and> \<not> enabled config)
       \<or> s = nothing_summary ''No items to process''
       \<or> (\<exists>msg. s = error_summary msg (length items) \<and> enabled config)"
  using assms
  by (auto simp: execute_start_def Let_def
      split: if_splits sum.splits option.splits bool.splits
      dest!: execute_catch_shape)

lemma execute_finish_shape:
  assumes "execute_finish config order fl rnd t items
             (Scheduled operation batches mergedOptions) w = Some (Inr s, w1)"
  shows "(\<exists>msg. s = error_summary msg (length items)) \<or> (\<exists>rs. s = result_summary rs)"
  using assms
  by (auto simp: execute_finish_def Let_def
      split: if_splits option.splits prod.splits
      dest!: execute_catch_shape)

lemma execute_start_enabled:
  "execute_start handlers config t items opts = Some (Scheduled operation batches m) \<Longrightarrow>
     enabled config"
  by (auto simp: execute_start_def Let_def
      split: if_splits sum.splits option.splits bool.splits)

lemma execute_summary_shape:
  assumes "execute handlers config order fl rnd t items opts w = Some (Inr s, w1)"
  shows "(s = disabled_summary \<and> \<not> enabled config)
       \<or> s = nothing_summary ''No items to process''
       \<or> (\<exists>msg. s = error_summary msg (length items) \<and> enabled config)
       \<or> (\<exists>rs. s = result_summary rs)"
proof -
  from assms obtain st where st: "execute_start handlers config t items opts = Some st"
    and fin: "execute_finish config order fl rnd t items st w = Some (Inr s, w1)"
    by (auto simp: execute_def split: option.splits)
  show ?thesis
  proof (cases st)
    case (Settled outcome)
    with fin have "outcome = Inr s" by (simp add: execute_finish_def)
    with st Settled show ?thesis using execute_start_shape by blast
  next
    case (Scheduled operation batches m)
    with st have "enabled config" by (auto dest: execute_start_enabled)
    moreover from fin Scheduled
    have "(\<exists>msg. s = error_summary msg (length items)) \<or> (\<exists>rs. s = result_summary rs)"
      by (auto dest: execute_finish_shape)
    ultimately show ?thesis by blast
  qed
qed

lemma standard_operations_yield:
  "yields_one_result_per_item \<lparr> op_validate = v, op_execute = create_execute opts \<rparr>"
  "yields_one_result_per_item \<lparr> op_validate = v, op_execute = update_execute opts \<rparr>"
  "yields_one_result_per_item \<lparr> op_validate = v, op_execute = delete_execute opts \<rparr>"
  "yields_one_result_per_item \<lparr> op_validate = v, op_execute = custom_execute opts \<rparr>"
  by (auto simp: yields_one_result_per_item_def
      dest: create_execute_echo update_execute_echo delete_execute_echo custom_execute_echo)

lemma create_execute_readable:
  "fst (create_execute opts batch w) = Inl e \<Longrightarrow> message_readable e"
  by (cases "create_execute opts batch w")
    (auto dest: create_execute_rejects has_message_readable)

lemma update_execute_readable:
  "fst (update_execute opts batch w) = Inl e \<Longrightarrow> message_readable e"
  by (cases "update_execute opts batch w")
    (auto dest: update_execute_rejects has_message_readable)

lemma delete_execute_readable:
  "fst (delete_execute opts batch w) = Inl e \<Longrightarrow> message_readable e"
  by (cases "delete_execute opts batch w")
    (auto dest: delete_execute_rejects has_message_readable)

lemma custom_execute_readable:
  "fst (custom_execute opts batch w) = Inl e \<Longrightarrow> message_readable e"
  by (cases "custom_execute opts batch w")
    (auto dest: custom_execute_rejects has_message_readable)

lemma standard_operations_reject:
  "rejects_readably \<lparr> op_validate = v, op_execute = create_execute opts \<rparr>"
  "rejects_readably \<lparr> op_validate = v, op_execute = update_execute opts \<rparr>"
  "rejects_readably \<lparr> op_validate = v, op_execute = delete_execute opts \<rparr>"
  "rejects_readably \<lparr> op_validate = v, op_execute = custom_execute opts \<rparr>"
  by (auto simp: rejects_readably_def
      dest: create_execute_readable update_execute_readable delete_execute_readable
            custom_execute_readable)

lemma execute_results_echo:
  assumes "enabled config" and "handlers operationType = Some HandlerClass"
    and "HandlerClass (merge config opts) = Inr operation"
    and "op_validate operation items = Inr True"
    and "yields_one_result_per_item operation"
    and "rejects_readably operation"
    and "records_quietly config"
    and "items \<noteq> []"
    and "batchSize (merge config opts) = Count b" and "0 < b"
    and "0 < maxConcurrent (merge config opts)"
    and "0 < retryAttempts (merge config opts)"
  shows "\<exists>rs w1. execute handlers config order fl rnd operationType items opts w
                     = Some (Inr (result_summary rs), w1)
           \<and> map r_item rs = items"
proof -
  let ?m = "merge config opts"
  from make_batches_ends [OF assms(10), of items]
  obtain batches where mb: "slice_items (batchSize ?m) items = Some batches"
    and cat: "concat batches = items" using assms(9) by (auto simp: slice_items_def)
  let ?Q = "\<lambda>i rs. map r_item rs = batches ! i"
  have "\<exists>brs w1. processBatchesInParallel operation batches ?m order fl rnd w = Some (brs, w1)
           \<and> length brs = length batches
           \<and> (\<forall>i<length batches. \<exists>r. brs ! i = Some r \<and> ?Q i r)"
  proof (rule processBatchesInParallel_ends [OF assms(11) assms(12)])
    show "map r_item rs = batches ! i"
      if "op_execute operation (batches ! i) w = (Inr rs, w1)" for i w rs w1
      using assms(5) that by (auto simp: yields_one_result_per_item_def)
    show "message_readable e"
      if "fst (op_execute operation (batches ! i) w) = Inl e" for i w e
      using assms(6) that by (auto simp: rejects_readably_def)
    show "map r_item (batch_failure msg (batches ! i)) = batches ! i" for i msg
      by (rule batch_failure_echo)
  qed
  then obtain brs w1
    where run: "processBatchesInParallel operation batches ?m order fl rnd w = Some (brs, w1)"
      and len: "length brs = length batches"
      and slots: "\<forall>i<length batches. \<exists>r. brs ! i = Some r \<and> map r_item r = batches ! i"
    by blast
  have items: "map r_item (flat brs) = items"
    using flat_items [OF len slots] cat by simp
  have "\<exists>w2. execute handlers config order fl rnd operationType items opts w
      = Some (Inr (result_summary (flat brs)), w2)"
    using assms(1-4) assms(8) mb run assms(7) by (rule execute_scheduled)
  with items show ?thesis by blast
qed

section \<open>Calls that never settle, and example runs\<close>

lemma admission_loop_hung:
  assumes "admission_loop operation batches opts order fl rnd t s = Some y"
  shows "\<not> (length batches \<le> nextBatchIndex s \<and> pending s = [] \<and> 0 < active s)"
proof (rule admission_loop.raw_induct
    [where P = "\<lambda>operation batches opts order fl rnd t s y.
                  \<not> (length batches \<le> nextBatchIndex s \<and> pending s = [] \<and> 0 < active s)",
      OF _ assms], goal_cases)
  case (1 loop operation batches opts order fl rnd t s y)
  show ?case
  proof
    assume h: "length batches \<le> nextBatchIndex s \<and> pending s = [] \<and> 0 < active s"
    then have "start_batches (maxConcurrent opts) (length batches) s = s"
      by (simp add: start_batches.simps [of _ _ s])
    with h have "settle operation batches opts fl rnd (order t)
                   (start_batches (maxConcurrent opts) (length batches) s) = s"
      by (simp add: settle_def)
    with 1(2) h have "loop operation batches opts order fl rnd (Suc t) s = Some y"
      by simp
    from 1(1) [OF this] h show False by simp
  qed
qed

lemma admission_loop_never_settles:
  assumes "length batches \<le> nextBatchIndex s" "pending s = []" "0 < active s"
  shows "admission_loop operation batches opts order fl rnd t s = None"
proof (cases "admission_loop operation batches opts order fl rnd t s")
  case None
  then show ?thesis .
next
  case (Some y)
  from admission_loop_hung [OF this] assms show ?thesis by simp
qed

lemmas eval_defs = execute_def execute_start_def execute_finish_def execute_catch_def
  standard_handlers_def hasHandler_def getHandler_def
  BATCH_OPERATIONS_CONFIG_def MetricsCollector_def no_overrides_def merge_def orElse_def
  CreateOperation_def UpdateOperation_def DeleteOperation_def CustomOperation_def validate_def
  slice_items_def make_batches.simps processBatchesInParallel_def admission_loop.simps
  start_batches.simps settle_def processBatch_def executeWithRetry_def retry_from.simps
  oldest_first_def second_first_def batch_failure_def flat_def Let_def
  create_execute_def update_execute_def delete_execute_def custom_execute_def
  create_item_def update_item_def delete_item_def custom_item_def validation_step_def
  id_field_of_def caught_def handleError_def succeeded_result_def failed_result_def
  missing_id_message_def

lemma execute_three_updates:
  "execute standard_handlers BATCH_OPERATIONS_CONFIG second_first exact mid_draw ''update''
     three_updates small_batches 0
   = Some (Inr (result_summary
        [\<lparr> r_success = True, r_result = Some (JObj [(''id'', JNum 1)]), r_error = None,
           r_id = None, r_item = JObj [(''id'', JNum 1)] \<rparr>,
         \<lparr> r_success = False, r_result = None, r_error = Some ''update failed'',
           r_id = None, r_item = JObj [(''id'', JNum 2)] \<rparr>,
         \<lparr> r_success = True, r_result = Some (JObj [(''id'', JNum 3)]), r_error = None,
           r_id = None, r_item = JObj [(''id'', JNum 3)] \<rparr>]), 3)"
  by (simp add: eval_defs small_batches_def three_updates_def counting_repository_def)

lemma execute_three_updates_in_turn:
  "execute standard_handlers BATCH_OPERATIONS_CONFIG oldest_first exact mid_draw ''update''
     three_updates small_batches 0
   = Some (Inr (result_summary
        [\<lparr> r_success = True, r_result = Some (JObj [(''id'', JNum 1)]), r_error = None,
           r_id = None, r_item = JObj [(''id'', JNum 1)] \<rparr>,
         \<lparr> r_success = False, r_result = None, r_error = Some ''update failed'',
           r_id = None, r_item = JObj [(''id'', JNum 2)] \<rparr>,
         \<lparr> r_success = True, r_result = Some (JObj [(''id'', JNum 3)]), r_error = None,
           r_id = None, r_item = JObj [(''id'', JNum 3)] \<rparr>]), 3)"
  by (simp add: eval_defs small_batches_def three_updates_def counting_repository_def)

lemma execute_unsized:
  "execute standard_handlers BATCH_OPERATIONS_CONFIG second_first exact mid_draw ''update''
     three_updates unsized_batches 0
   = Some (Inr (result_summary []), 0)"
  by (simp add: eval_defs unsized_batches_def three_updates_def counting_repository_def)

lemma execute_create_without_repository:
  "execute standard_handlers BATCH_OPERATIONS_CONFIG oldest_first exact mid_draw ''create''
     [JNum 1] no_overrides (0::nat)
   = Some (Inr (result_summary
        [\<lparr> r_success = False, r_result = None,
           r_error = Some ''Repository with create() method is required'', r_id = None,
           r_item = JNum 1 \<rparr>]), 0)"
  by (simp add: eval_defs)

lemma execute_import:
  "execute guide_handlers BATCH_OPERATIONS_CONFIG oldest_first exact mid_draw ''import''
     [JNum 1, JNum 2] no_overrides (0::nat)
   = Some (Inr (error_summary (Some ''operation.validate is not a function'') 2), 0)"
  by (simp add: eval_defs guide_handlers_def CustomImportOperation_def error_summary_def)

lemma execute_strict:
  "execute strict_handlers BATCH_OPERATIONS_CONFIG oldest_first exact mid_draw ''strict''
     [JNum 1] no_overrides (0::nat)
   = Some (Inl (type_error_message ''null'' ''message''), 0)"
  by (simp add: eval_defs strict_handlers_def guide_handlers_def NullValidateOperation_def)

lemma execute_purge:
  "execute purge_handlers BATCH_OPERATIONS_CONFIG oldest_first exact mid_draw ''purge''
     [JNum 1, JNum 2] no_overrides 0 = None"
proof -
  let ?c = "BATCH_OPERATIONS_CONFIG :: nat options"
  let ?s0 = "\<lparr> results = replicate (length [[JNum 1, JNum 2]]) None, active = 0,
               nextBatchIndex = 0, pending = [], world = 0::nat \<rparr>"
  let ?s1 = "\<lparr> results = [None], active = 1, nextBatchIndex = 1, pending = [], world = 3::nat \<rparr>"
  have st: "execute_start purge_handlers ?c ''purge'' [JNum 1, JNum 2] no_overrides
              = Some (Scheduled null_rejecting [[JNum 1, JNum 2]] (merge ?c no_overrides))"
    by (simp add: execute_start_def purge_handlers_def hasHandler_def getHandler_def
        NullRejectingOperation_def null_rejecting_def validate_def slice_items_def
        make_batches.simps merge_def no_overrides_def BATCH_OPERATIONS_CONFIG_def Let_def)
  have step: "settle null_rejecting [[JNum 1, JNum 2]] (merge ?c no_overrides) exact mid_draw
                (oldest_first 0)
                (start_batches (maxConcurrent (merge ?c no_overrides))
                   (length [[JNum 1, JNum 2]]) ?s0) = ?s1"
    by (simp add: start_batches.simps settle_def processBatch_def executeWithRetry_def
        retry_from.simps null_rejecting_def merge_def no_overrides_def
        BATCH_OPERATIONS_CONFIG_def oldest_first_def Let_def)
  have "admission_loop null_rejecting [[JNum 1, JNum 2]] (merge ?c no_overrides)
          oldest_first exact mid_draw 0 ?s0
        = admission_loop null_rejecting [[JNum 1, JNum 2]] (merge ?c no_overrides)
            oldest_first exact mid_draw (Suc 0) ?s1"
    by (subst admission_loop.simps) (simp only: step, simp)
  also have "\<dots> = None" by (rule admission_loop_never_settles) simp_all
  finally show ?thesis
    by (simp add: execute_def st execute_finish_def processBatchesInParallel_def)
qed

section \<open>The results and summaries of \<open>execute\<close>\<close>

text \<open>
  Claim C4, as stated, fails: on a disabled engine \<open>execute\<close> returns a summary without
  any item results for three items of the registered type \<open>update\<close>, and with a batch
  size that is not a number it returns, on an enabled engine, a success summary whose
  results are empty.
\<close>

theorem results_in_input_order_counterexample:
  "execute standard_handlers disabled_config second_first exact mid_draw ''update''
     three_updates small_batches 0 = Some (Inr disabled_summary, 0)
   \<and> s_results disabled_summary = None
   \<and> execute standard_handlers BATCH_OPERATIONS_CONFIG second_first exact mid_draw ''update''
       three_updates unsized_batches 0 = Some (Inr (result_summary []), 0)
   \<and> s_results (result_summary []) = Some []
   \<and> length three_updates = 3"
  by (simp add: execute_unsized)
    (simp add: execute_def execute_start_def execute_finish_def disabled_config_def
      BATCH_OPERATIONS_CONFIG_def disabled_summary_def result_summary_def three_updates_def)

text \<open>
  Claim C4, amended. On an enabled engine with a positive batch size, concurrency bound
  and number of retry attempts, whose metrics collector throws nothing when profiling
  is on, for a non-empty item list and a registered type whose handler accepts the
  list, yields one result per item and never rejects with \<open>null\<close> or \<open>undefined\<close>,
  \<open>execute\<close> returns a summary whose results are as many as the items and carry the
  items in input order. This holds for every completion order \<open>order\<close> of the batches
  (and every rounding \<open>fl\<close> and source \<open>rnd\<close> of jitter).
\<close>

theorem results_in_input_order:
  assumes "enabled config" and "handlers operationType = Some HandlerClass"
    and "HandlerClass (merge config opts) = Inr operation"
    and "op_validate operation items = Inr True"
    and "yields_one_result_per_item operation"
    and "rejects_readably operation"
    and "records_quietly config"
    and "items \<noteq> []"
    and "batchSize (merge config opts) = Count b" and "0 < b"
    and "0 < maxConcurrent (merge config opts)"
    and "0 < retryAttempts (merge config opts)"
  shows "\<exists>s rs w1. execute handlers config order fl rnd operationType items opts w
                      = Some (Inr s, w1)
           \<and> s_results s = Some rs \<and> length rs = length items \<and> map r_item rs = items"
proof -
  have "\<exists>rs w1. execute handlers config order fl rnd operationType items opts w
                     = Some (Inr (result_summary rs), w1)
           \<and> map r_item rs = items"
    using assms by (rule execute_results_echo)
  then obtain rs w1
    where run: "execute handlers config order fl rnd operationType items opts w
                  = Some (Inr (result_summary rs), w1)"
      and echo: "map r_item rs = items"
    by blast
  from echo have "length rs = length items" by (metis length_map)
  with run echo show ?thesis by (simp add: result_summary_def)
qed

theorem results_in_input_order_witness:
  "execute standard_handlers BATCH_OPERATIONS_CONFIG second_first exact mid_draw ''update''
     three_updates small_batches 0
   = Some (Inr (result_summary
        [\<lparr> r_success = True, r_result = Some (JObj [(''id'', JNum 1)]), r_error = None,
           r_id = None, r_item = JObj [(''id'', JNum 1)] \<rparr>,
         \<lparr> r_success = False, r_result = None, r_error = Some ''update failed'',
           r_id = None, r_item = JObj [(''id'', JNum 2)] \<rparr>,
         \<lparr> r_success = True, r_result = Some (JObj [(''id'', JNum 3)]), r_error = None,
           r_id = None, r_item = JObj [(''id'', JNum 3)] \<rparr>]), 3)
   \<and> execute standard_handlers BATCH_OPERATIONS_CONFIG oldest_first exact mid_draw ''update''
     three_updates small_batches 0
   = Some (Inr (result_summary
        [\<lparr> r_success = True, r_result = Some (JObj [(''id'', JNum 1)]), r_error = None,
           r_id = None, r_item = JObj [(''id'', JNum 1)] \<rparr>,
         \<lparr> r_success = False, r_result = None, r_error = Some ''update failed'',
           r_id = None, r_item = JObj [(''id'', JNum 2)] \<rparr>,
         \<lparr> r_success = True, r_result = Some (JObj [(''id'', JNum 3)]), r_error = None,
           r_id = None, r_item = JObj [(''id'', JNum 3)] \<rparr>]), 3)"
proof -
  let ?m = "merge BATCH_OPERATIONS_CONFIG small_batches"
  let ?op = "\<lparr> op_validate = validate, op_execute = update_execute ?m \<rparr>"
  have h1: "enabled (BATCH_OPERATIONS_CONFIG :: nat options)"
    by (simp add: BATCH_OPERATIONS_CONFIG_def)
  have h2: "(standard_handlers :: nat registry) ''update'' = Some UpdateOperation"
    by (simp add: standard_handlers_def)
  have h3: "UpdateOperation ?m = Inr ?op" by (simp add: UpdateOperation_def)
  have h4: "op_validate ?op three_updates = Inr True"
    by (simp add: validate_def three_updates_def)
  have h5: "yields_one_result_per_item ?op" by (rule standard_operations_yield)
  have h6: "rejects_readably ?op" by (rule standard_operations_reject)
  have h7: "records_quietly (BATCH_OPERATIONS_CONFIG :: nat options)"
    by (simp add: records_quietly_def BATCH_OPERATIONS_CONFIG_def)
  have h8: "three_updates \<noteq> []" by (simp add: three_updates_def)
  have h9: "batchSize ?m = Count 2" and h10: "0 < (2::nat)"
    and h11: "0 < maxConcurrent ?m" and h12: "0 < retryAttempts ?m"
    by (simp_all add: merge_def small_batches_def no_overrides_def BATCH_OPERATIONS_CONFIG_def)
  note t = results_in_input_order [where config = BATCH_OPERATIONS_CONFIG
      and handlers = standard_handlers and operationType = "''update''"
      and HandlerClass = UpdateOperation and opts = small_batches and operation = ?op
      and items = three_updates and fl = exact and rnd = mid_draw and w = 0,
      OF h1 h2 h3 h4 h5 h6 h7 h8 h9 h10 h11 h12]
  show ?thesis using t [of second_first] t [of oldest_first]
    by (intro conjI) (rule execute_three_updates execute_three_updates_in_turn)+
qed

text \<open>
  Claim C2, as stated, fails. For a type that is not registered, \<open>execute\<close> on an
  enabled engine throws \<open>Unknown operation type\<close>: the check stands before the \<open>try\<close>
  block. For a registered class whose \<open>validate\<close> throws \<open>null\<close>, the catch block throws
  a TypeError when it reads \<open>error.message\<close>, and \<open>execute\<close> rejects with it. For a
  registered class whose handler rejects with \<open>null\<close>, \<open>execute\<close> never settles.
\<close>

theorem execute_returns_summary_counterexample:
  "execute standard_handlers BATCH_OPERATIONS_CONFIG oldest_first exact mid_draw ''nonexistent''
     [JNum 1] no_overrides (0::nat)
   = Some (Inl ''Unknown operation type: nonexistent'', 0)
   \<and> execute strict_handlers BATCH_OPERATIONS_CONFIG oldest_first exact mid_draw ''strict''
       [JNum 1] no_overrides (0::nat)
     = Some (Inl (type_error_message ''null'' ''message''), 0)
   \<and> execute purge_handlers BATCH_OPERATIONS_CONFIG oldest_first exact mid_draw ''purge''
       [JNum 1, JNum 2] no_overrides 0 = None"
  by (simp add: execute_strict execute_purge)
    (simp add: execute_def execute_start_def execute_finish_def standard_handlers_def
      hasHandler_def BATCH_OPERATIONS_CONFIG_def)

text \<open>
  Claim C2, amended. Let the type be registered with a class whose constructor and
  \<open>validate\<close> throw nothing but values with a message, whose handler never rejects with
  \<open>null\<close> or \<open>undefined\<close>; let the metrics collector, with profiling on, throw nothing
  but values with a message; let the batch size not be \<open>0\<close> and the concurrency bound
  and the number of retry attempts be positive. Then \<open>execute\<close> returns a summary and
  throws nothing, and a summary with \<open>success: false\<close> has its \<open>error\<close> field set. For a
  type that is not registered, \<open>execute\<close> on an enabled engine throws
  \<open>Unknown operation type: <type>\<close>.
\<close>

theorem execute_returns_summary:
  "(handlers t = Some HandlerClass
      \<and> (\<forall>e. HandlerClass (merge config opts) = Inl e \<longrightarrow> has_message e)
      \<and> (\<forall>operation. HandlerClass (merge config opts) = Inr operation \<longrightarrow>
            (\<forall>e. op_validate operation items = Inl e \<longrightarrow> has_message e)
            \<and> rejects_readably operation)
      \<and> (profiling config \<longrightarrow>
            (\<forall>m w e. fst (metricsCollector config m w) = Some e \<longrightarrow> has_message e))
      \<and> batchSize (merge config opts) \<noteq> Count 0
      \<and> 0 < maxConcurrent (merge config opts) \<and> 0 < retryAttempts (merge config opts) \<longrightarrow>
      (\<exists>s w1. execute handlers config order fl rnd t items opts w = Some (Inr s, w1)
          \<and> (\<not> s_success s \<longrightarrow> s_error s \<noteq> None)))
   \<and> (enabled config \<and> \<not> hasHandler handlers t \<longrightarrow>
        execute handlers config order fl rnd t items opts w
          = Some (Inl (''Unknown operation type: '' @ t), w))"
proof (intro conjI impI)
  assume "enabled config \<and> \<not> hasHandler handlers t"
  then show "execute handlers config order fl rnd t items opts w
          = Some (Inl (''Unknown operation type: '' @ t), w)"
    by (simp add: execute_def execute_start_def execute_finish_def)
next
  let ?m = "merge config opts"
  let ?n = "length items"
  assume a: "handlers t = Some HandlerClass
      \<and> (\<forall>e. HandlerClass ?m = Inl e \<longrightarrow> has_message e)
      \<and> (\<forall>operation. HandlerClass ?m = Inr operation \<longrightarrow>
            (\<forall>e. op_validate operation items = Inl e \<longrightarrow> has_message e)
            \<and> rejects_readably operation)
      \<and> (profiling config \<longrightarrow>
            (\<forall>m w e. fst (metricsCollector config m w) = Some e \<longrightarrow> has_message e))
      \<and> batchSize ?m \<noteq> Count 0 \<and> 0 < maxConcurrent ?m \<and> 0 < retryAttempts ?m"
  then have H: "handlers t = Some HandlerClass"
    and cons: "\<And>e. HandlerClass ?m = Inl e \<Longrightarrow> has_message e"
    and val: "\<And>operation e. HandlerClass ?m = Inr operation \<Longrightarrow>
                op_validate operation items = Inl e \<Longrightarrow> has_message e"
    and rej: "\<And>operation. HandlerClass ?m = Inr operation \<Longrightarrow> rejects_readably operation"
    and met: "\<And>m w e. profiling config \<Longrightarrow> fst (metricsCollector config m w) = Some e \<Longrightarrow>
                has_message e"
    and bs: "batchSize ?m \<noteq> Count 0" and mc: "0 < maxConcurrent ?m"
    and ra: "0 < retryAttempts ?m"
    by blast+
  define fine where "fine = (\<lambda>s. s = disabled_summary
      \<or> s = nothing_summary ''No items to process''
      \<or> (\<exists>msg. s = error_summary (Some msg) ?n) \<or> (\<exists>rs. s = result_summary rs))"
  have caught: "\<exists>s. execute_catch e ?n = Inr s \<and> fine s" if "has_message e" for e
    using that by (cases e) (auto simp: execute_catch_def fine_def)
  have good: "\<not> s_success s \<longrightarrow> s_error s \<noteq> None" if "fine s" for s
    using that
    by (auto simp: fine_def disabled_summary_def nothing_summary_def error_summary_def
        result_summary_def)
  have fine: "fine disabled_summary" "fine (nothing_summary ''No items to process'')"
    "fine (result_summary rs)" for rs
    by (auto simp: fine_def)
  have "(\<exists>s. execute_start handlers config t items opts = Some (Settled (Inr s)) \<and> fine s)
        \<or> (\<exists>operation batches. execute_start handlers config t items opts
              = Some (Scheduled operation batches ?m) \<and> HandlerClass ?m = Inr operation)"
  proof (cases "\<not> enabled config \<or> ?n = 0")
    case True
    then show ?thesis using H fine by (auto simp: execute_start_def hasHandler_def)
  next
    case False
    then have en: "enabled config" "?n \<noteq> 0" by simp_all
    show ?thesis
    proof (cases "HandlerClass ?m")
      case (Inl e)
      from caught [OF cons [OF Inl]] obtain s
        where "execute_catch e ?n = Inr s" "fine s" by blast
      with en H Inl show ?thesis
        by (simp add: execute_start_def hasHandler_def getHandler_def Let_def)
    next
      case (Inr operation)
      show ?thesis
      proof (cases "op_validate operation items")
        case v: (Inl e)
        from caught [OF val [OF Inr v]] obtain s
          where "execute_catch e ?n = Inr s" "fine s" by blast
        with en H Inr v show ?thesis
          by (simp add: execute_start_def hasHandler_def getHandler_def Let_def)
      next
        case v: (Inr accepted)
        show ?thesis
        proof (cases accepted)
          case False
          from caught [of "Error ''Items validation failed''"] obtain s
            where "execute_catch (Error ''Items validation failed'') ?n = Inr s" "fine s"
            by auto
          with en H Inr v False show ?thesis
            by (simp add: execute_start_def hasHandler_def getHandler_def Let_def)
        next
          case True
          from slice_items_ends [OF bs, of items] obtain batches
            where "slice_items (batchSize ?m) items = Some batches" by blast
          with en H Inr v True show ?thesis
            by (simp add: execute_start_def hasHandler_def getHandler_def Let_def)
        qed
      qed
    qed
  qed
  then show "\<exists>s w1. execute handlers config order fl rnd t items opts w = Some (Inr s, w1)
          \<and> (\<not> s_success s \<longrightarrow> s_error s \<noteq> None)"
  proof (elim disjE exE conjE)
    fix s
    assume "execute_start handlers config t items opts = Some (Settled (Inr s))" and "fine s"
    then show ?thesis using good [of s] by (simp add: execute_def execute_finish_def)
  next
    fix operation batches
    assume st: "execute_start handlers config t items opts
                  = Some (Scheduled operation batches ?m)"
      and op: "HandlerClass ?m = Inr operation"
    have "\<exists>brs w1. processBatchesInParallel operation batches ?m order fl rnd w = Some (brs, w1)
           \<and> length brs = length batches
           \<and> (\<forall>i<length batches. \<exists>r. brs ! i = Some r \<and> True)"
    proof (rule processBatchesInParallel_ends [OF mc ra])
      show "message_readable e"
        if "fst (op_execute operation (batches ! i) w) = Inl e" for i w e
        using rej [OF op] that by (auto simp: rejects_readably_def)
    qed simp_all
    then obtain brs w1
      where run: "processBatchesInParallel operation batches ?m order fl rnd w = Some (brs, w1)"
      by blast
    let ?mt = "\<lparr> m_operation = ''batch_'' @ t,
                 m_success = (length (filter (\<lambda>r. \<not> r_success r) (flat brs)) = 0),
                 m_total = ?n,
                 m_successCount = length (filter (\<lambda>r. r_success r) (flat brs)),
                 m_failureCount = length (filter (\<lambda>r. \<not> r_success r) (flat brs)) \<rparr>"
    have "\<exists>s w2. execute_finish config order fl rnd t items
                    (Scheduled operation batches ?m) w = Some (Inr s, w2) \<and> fine s"
    proof (cases "profiling config")
      case False
      with run fine show ?thesis by (simp add: execute_finish_def Let_def)
    next
      case True
      obtain x w2 where c: "metricsCollector config ?mt w1 = (x, w2)"
        by (cases "metricsCollector config ?mt w1")
      show ?thesis
      proof (cases x)
        case None
        with run True c fine show ?thesis by (simp add: execute_finish_def Let_def)
      next
        case (Some e)
        with c have "fst (metricsCollector config ?mt w1) = Some e" by simp
        from caught [OF met [OF True this]] obtain s
          where "execute_catch e ?n = Inr s" "fine s" by blast
        with run True c Some show ?thesis by (simp add: execute_finish_def Let_def)
      qed
    qed
    then obtain s w2 where "execute_finish config order fl rnd t items
                    (Scheduled operation batches ?m) w = Some (Inr s, w2)" and "fine s"
      by blast
    with st show ?thesis using good [of s] by (simp add: execute_def)
  qed
qed

theorem execute_returns_summary_witness:
  "execute standard_handlers BATCH_OPERATIONS_CONFIG oldest_first exact mid_draw ''create''
     [JNum 1] no_overrides (0::nat)
   = Some (Inr (result_summary
        [\<lparr> r_success = False, r_result = None,
           r_error = Some ''Repository with create() method is required'', r_id = None,
           r_item = JNum 1 \<rparr>]), 0)
   \<and> execute standard_handlers BATCH_OPERATIONS_CONFIG oldest_first exact mid_draw ''import''
     [JNum 1] no_overrides (0::nat)
   = Some (Inl ''Unknown operation type: import'', 0)"
proof -
  let ?c = "BATCH_OPERATIONS_CONFIG :: nat options"
  have h: "(standard_handlers :: nat registry) ''create'' = Some CreateOperation
      \<and> (\<forall>e. CreateOperation (merge ?c no_overrides) = Inl e \<longrightarrow> has_message e)
      \<and> (\<forall>operation. CreateOperation (merge ?c no_overrides) = Inr operation \<longrightarrow>
            (\<forall>e. op_validate operation [JNum 1] = Inl e \<longrightarrow> has_message e)
            \<and> rejects_readably operation)
      \<and> (profiling ?c \<longrightarrow>
            (\<forall>m w e. fst (metricsCollector ?c m w) = Some e \<longrightarrow> has_message e))
      \<and> batchSize (merge ?c no_overrides) \<noteq> Count 0
      \<and> 0 < maxConcurrent (merge ?c no_overrides)
      \<and> 0 < retryAttempts (merge ?c no_overrides)"
    by (auto simp: standard_handlers_def merge_def no_overrides_def
        BATCH_OPERATIONS_CONFIG_def CreateOperation_def validate_def
        standard_operations_reject)
  have g: "enabled ?c \<and> \<not> hasHandler (standard_handlers :: nat registry) ''import''"
    by (simp add: hasHandler_def standard_handlers_def BATCH_OPERATIONS_CONFIG_def)
  note t1 = execute_returns_summary [where handlers = standard_handlers and t = "''create''"
      and HandlerClass = CreateOperation
      and config = BATCH_OPERATIONS_CONFIG and opts = no_overrides and order = oldest_first
      and fl = exact and rnd = mid_draw and items = "[JNum 1]" and w = "0::nat",
      THEN conjunct1, THEN mp, OF h]
  note t2 = execute_returns_summary [where handlers = standard_handlers and t = "''import''"
      and config = BATCH_OPERATIONS_CONFIG and opts = no_overrides and order = oldest_first
      and fl = exact and rnd = mid_draw and items = "[JNum 1]" and w = "0::nat",
      THEN conjunct2, THEN mp, OF g]
  show ?thesis using t1 t2
    by (intro conjI) (rule execute_create_without_repository, simp)
qed

text \<open>
  Claim C3, as stated, fails: on a disabled engine the summary \<open>execute\<close> returns has
  \<open>success: false\<close> and an error message, and on an enabled engine an empty item list
  with a type that is not registered makes \<open>execute\<close> throw.
\<close>

theorem trivial_summaries_counterexample:
  "execute standard_handlers disabled_config oldest_first exact mid_draw ''create'' []
     no_overrides 0
     = Some (Inr disabled_summary, 0)
   \<and> s_success disabled_summary = False
   \<and> s_error disabled_summary = Some ''Batch operations are disabled''
   \<and> execute standard_handlers BATCH_OPERATIONS_CONFIG oldest_first exact mid_draw
       ''nonexistent'' [] no_overrides (0::nat)
     = Some (Inl ''Unknown operation type: nonexistent'', 0)"
  by (simp add: execute_def execute_start_def execute_finish_def disabled_config_def
      disabled_summary_def standard_handlers_def hasHandler_def BATCH_OPERATIONS_CONFIG_def)

text \<open>
  Claim C3, amended. On a disabled engine \<open>execute\<close> returns, for every type and item
  list, the summary with \<open>success: false\<close>, the error \<open>Batch operations are disabled\<close>
  and zero operations, succeeded and failed. On an enabled engine, for a registered
  type and an empty item list, it returns the summary with \<open>success: true\<close>, no error
  and zero operations, succeeded and failed.
\<close>

theorem trivial_summaries:
  "(\<not> enabled config \<longrightarrow>
      execute handlers config order fl rnd t items opts w = Some (Inr disabled_summary, w))
   \<and> (enabled config \<and> hasHandler handlers t \<longrightarrow>
        execute handlers config order fl rnd t [] opts w
          = Some (Inr (nothing_summary ''No items to process''), w))
   \<and> \<not> s_success disabled_summary
   \<and> s_error disabled_summary = Some ''Batch operations are disabled''
   \<and> s_operations disabled_summary = 0 \<and> s_succeeded disabled_summary = 0
   \<and> s_failed disabled_summary = 0
   \<and> s_success (nothing_summary ''No items to process'')
   \<and> s_error (nothing_summary ''No items to process'') = None
   \<and> s_operations (nothing_summary ''No items to process'') = 0
   \<and> s_succeeded (nothing_summary ''No items to process'') = 0
   \<and> s_failed (nothing_summary ''No items to process'') = 0"
  by (simp add: execute_def execute_start_def execute_finish_def disabled_summary_def
      nothing_summary_def)

theorem trivial_summaries_witness:
  "execute standard_handlers disabled_config oldest_first exact mid_draw ''update'' three_updates
     small_batches 0 = Some (Inr disabled_summary, 0)
   \<and> execute standard_handlers BATCH_OPERATIONS_CONFIG oldest_first exact mid_draw ''update'' []
       small_batches 0 = Some (Inr (nothing_summary ''No items to process''), 0)"
proof -
  have h: "\<not> enabled disabled_config"
    by (simp add: disabled_config_def BATCH_OPERATIONS_CONFIG_def)
  have g: "enabled (BATCH_OPERATIONS_CONFIG :: nat options)
      \<and> hasHandler (standard_handlers :: nat registry) ''update''"
    by (simp add: hasHandler_def standard_handlers_def BATCH_OPERATIONS_CONFIG_def)
  note t1 = trivial_summaries [where handlers = standard_handlers and t = "''update''"
      and config = disabled_config and opts = small_batches and order = oldest_first
      and fl = exact and rnd = mid_draw and items = three_updates and w = 0,
      THEN conjunct1, THEN mp, OF h]
  note t2 = trivial_summaries [where handlers = standard_handlers and t = "''update''"
      and config = BATCH_OPERATIONS_CONFIG and opts = small_batches and order = oldest_first
      and fl = exact and rnd = mid_draw and w = 0, THEN conjunct2, THEN conjunct1, THEN mp,
      OF g]
  show ?thesis using t1 t2 by simp
qed

section \<open>Mixed batches: grouping and merging\<close>

lemma push_data_keys:
  "map fst (push_data t d byType) = (if t \<in> set (map fst byType) then map fst byType
                                     else map fst byType @ [t])"
proof -
  have "map fst (map (\<lambda>(k, v). if k = t then (k, v @ [d]) else (k, v)) xs) = map fst xs"
    for xs :: "(string \<times> jsval list) list"
    by (induction xs) auto
  then show ?thesis
    by (auto simp: push_data_def map_of_eq_None_iff)
qed

lemma map_of_added:
  "map_of (map (\<lambda>(k, v). if k = t then (k, v @ [d]) else (k, v)) xs) t' =
     (if t' = t then map_option (\<lambda>v. v @ [d]) (map_of xs t) else map_of xs t')"
  by (induction xs) auto

lemma map_of_push_data:
  "map_of (push_data t d byType) t' =
     (if t' = t then Some ((case map_of byType t of None \<Rightarrow> [] | Some xs \<Rightarrow> xs) @ [d])
      else map_of byType t')"
proof (cases "map_of byType t")
  case None
  then show ?thesis
    by (auto simp: push_data_def map_of_added map_add_def split: option.splits)
next
  case (Some xs)
  then show ?thesis
    by (auto simp: push_data_def map_of_added)
qed

lemma total_added:
  "distinct (map fst xs) \<Longrightarrow>
     total_items (map (\<lambda>(k, v). if k = t then (k, v @ [d]) else (k, v)) xs) =
       (if t \<in> set (map fst xs) then Suc (total_items xs) else total_items xs)"
proof (induction xs)
  case Nil
  then show ?case by (simp add: total_items_def)
next
  case (Cons x xs)
  obtain k v where x: "x = (k, v)" by (cases x)
  from Cons have ih: "total_items (map (\<lambda>(k, v). if k = t then (k, v @ [d]) else (k, v)) xs) =
       (if t \<in> set (map fst xs) then Suc (total_items xs) else total_items xs)"
    by simp
  from Cons.prems x have "k \<notin> set (map fst xs)" by simp
  then show ?case using ih x by (auto simp: total_items_def)
qed

lemma total_push_data:
  "distinct (map fst byType) \<Longrightarrow> total_items (push_data t d byType) = Suc (total_items byType)"
proof -
  assume d: "distinct (map fst byType)"
  show ?thesis
  proof (cases "map_of byType t")
    case None
    then have nk: "t \<notin> set (map fst byType)" by (simp add: map_of_eq_None_iff)
    with d have "distinct (map fst (byType @ [(t, [])]))" by simp
    from total_added [OF this, of t d] None show ?thesis
      by (simp add: push_data_def total_items_def)
  next
    case (Some xs)
    then have "t \<in> set (map fst byType)" by (metis map_of_eq_None_iff option.distinct(1) set_map)
    with total_added [OF d, of t d] Some show ?thesis
      by (simp add: push_data_def)
  qed
qed

lemma group_operations_ends:
  assumes "\<forall>d\<in>set ds. \<exists>t. op_type d = Some t \<and> t \<noteq> [] \<and> truthy (op_data d)"
    and "distinct (map fst byType)"
  shows "\<exists>g. group_operations ds byType = Inr g \<and> distinct (map fst g)
     \<and> set (map fst g) = set (map fst byType) \<union> {t. \<exists>d\<in>set ds. op_type d = Some t}
     \<and> total_items g = total_items byType + length ds
     \<and> (\<forall>t. t \<in> set (map fst g) \<longrightarrow>
           map_of g t = Some ((case map_of byType t of None \<Rightarrow> [] | Some xs \<Rightarrow> xs)
                               @ map op_data (filter (\<lambda>d. op_type d = Some t) ds)))"
  using assms
proof (induction ds arbitrary: byType)
  case Nil
  then show ?case
    by (auto simp: map_of_eq_None_iff split: option.splits)
next
  case (Cons d ds)
  from Cons.prems(1) obtain t where t: "op_type d = Some t" "t \<noteq> []" "truthy (op_data d)"
    by auto
  let ?b = "push_data t (op_data d) byType"
  have dist: "distinct (map fst ?b)"
    using Cons.prems(2) by (simp add: push_data_keys)
  have rest: "\<forall>d\<in>set ds. \<exists>t. op_type d = Some t \<and> t \<noteq> [] \<and> truthy (op_data d)"
    using Cons.prems(1) by simp
  from Cons.IH [OF rest dist]
  obtain g where g: "group_operations ds ?b = Inr g" "distinct (map fst g)"
    "set (map fst g) = set (map fst ?b) \<union> {t. \<exists>d\<in>set ds. op_type d = Some t}"
    "total_items g = total_items ?b + length ds"
    "\<forall>t'. t' \<in> set (map fst g) \<longrightarrow>
           map_of g t' = Some ((case map_of ?b t' of None \<Rightarrow> [] | Some xs \<Rightarrow> xs)
                               @ map op_data (filter (\<lambda>d. op_type d = Some t') ds))"
    by blast
  have run: "group_operations (d # ds) byType = Inr g"
    using t g(1) by simp
  have keys: "set (map fst g)
      = set (map fst byType) \<union> {t. \<exists>d\<in>set (d # ds). op_type d = Some t}"
    using g(3) t(1) by (auto simp: push_data_keys)
  have tot: "total_items g = total_items byType + length (d # ds)"
    using g(4) total_push_data [OF Cons.prems(2), of t "op_data d"] by simp
  have cont: "map_of g t' = Some ((case map_of byType t' of None \<Rightarrow> [] | Some xs \<Rightarrow> xs)
                               @ map op_data (filter (\<lambda>d. op_type d = Some t') (d # ds)))"
    if "t' \<in> set (map fst g)" for t'
    using g(5) that t(1) by (simp add: map_of_push_data)
  show ?case using run g(2) keys tot cont by blast
qed

lemma execute_handled:
  assumes "enabled config" and "handles handlers (merge config opts) t"
    and "records_quietly config" and "items \<noteq> []"
  shows "\<exists>operation batches.
           execute_start handlers config t items opts
             = Some (Scheduled operation batches (merge config opts))
         \<and> (\<forall>order fl rnd w. \<exists>rs w1.
               execute_finish config order fl rnd t items
                 (Scheduled operation batches (merge config opts)) w
                 = Some (Inr (result_summary rs), w1)
             \<and> map r_item rs = items)"
proof -
  let ?m = "merge config opts"
  from assms(2) obtain H operation b where h: "handlers t = Some H"
    "H ?m = Inr operation"
    "\<forall>items. items \<noteq> [] \<longrightarrow> op_validate operation items = Inr True"
    "yields_one_result_per_item operation" "rejects_readably operation"
    "batchSize ?m = Count b" "0 < b" "0 < maxConcurrent ?m" "0 < retryAttempts ?m"
    unfolding handles_def by blast
  from h(3) assms(4) have v: "op_validate operation items = Inr True" by blast
  from make_batches_ends [OF h(7), of items]
  obtain batches where mb: "slice_items (batchSize ?m) items = Some batches"
    and cat: "concat batches = items" using h(6) by (auto simp: slice_items_def)
  have st: "execute_start handlers config t items opts = Some (Scheduled operation batches ?m)"
    using assms(1) h(1) h(2) v assms(4) mb by (rule execute_starts)
  have "\<exists>rs w1. execute_finish config order fl rnd t items (Scheduled operation batches ?m) w
                 = Some (Inr (result_summary rs), w1) \<and> map r_item rs = items"
    for order fl rnd w
  proof -
    have "\<exists>brs w1. processBatchesInParallel operation batches ?m order fl rnd w = Some (brs, w1)
           \<and> length brs = length batches
           \<and> (\<forall>i<length batches. \<exists>r. brs ! i = Some r \<and> map r_item r = batches ! i)"
    proof (rule processBatchesInParallel_ends [OF h(8) h(9)])
      show "map r_item rs = batches ! i"
        if "op_execute operation (batches ! i) w = (Inr rs, w1)" for i w rs w1
        using h(4) that by (auto simp: yields_one_result_per_item_def)
      show "message_readable e"
        if "fst (op_execute operation (batches ! i) w) = Inl e" for i w e
        using h(5) that by (auto simp: rejects_readably_def)
      show "map r_item (batch_failure msg (batches ! i)) = batches ! i" for i msg
        by (rule batch_failure_echo)
    qed
    then obtain brs w1
      where run: "processBatchesInParallel operation batches ?m order fl rnd w = Some (brs, w1)"
        and len: "length brs = length batches"
        and slots: "\<forall>i<length batches. \<exists>r. brs ! i = Some r \<and> map r_item r = batches ! i"
      by blast
    have items: "map r_item (flat brs) = items"
      using flat_items [OF len slots] cat by simp
    from execute_finishes [OF run assms(3), of t items] items show ?thesis by blast
  qed
  with st show ?thesis by blast
qed

lemma start_types_ends:
  assumes "enabled config" and "records_quietly config"
    and "\<forall>(t, items) \<in> set groups. items \<noteq> []
           \<and> handles handlers (merge config (options_for mergedOptions typeOptions t)) t"
  shows "\<exists>jobs. start_types handlers config mergedOptions typeOptions groups = Some jobs
         \<and> map (\<lambda>(t, items, st). (t, items)) jobs = groups
         \<and> (\<forall>(t, items, st) \<in> set jobs. \<not> is_settled st
               \<and> (\<forall>order fl rnd w. \<exists>rs w1.
                     execute_finish config order fl rnd t items st w
                       = Some (Inr (result_summary rs), w1)
                   \<and> map r_item rs = items))"
  using assms(3)
proof (induction groups)
  case Nil
  show ?case by simp
next
  case (Cons g groups)
  obtain t items where g: "g = (t, items)" by (cases g)
  with Cons.prems have ne: "items \<noteq> []"
    and hd: "handles handlers (merge config (options_for mergedOptions typeOptions t)) t"
    by auto
  from execute_handled [OF assms(1) hd assms(2) ne]
  obtain operation batches where st: "execute_start handlers config t items
        (options_for mergedOptions typeOptions t)
      = Some (Scheduled operation batches
                (merge config (options_for mergedOptions typeOptions t)))"
    and fin: "\<forall>order fl rnd w. \<exists>rs w1.
               execute_finish config order fl rnd t items
                 (Scheduled operation batches
                    (merge config (options_for mergedOptions typeOptions t))) w
                 = Some (Inr (result_summary rs), w1)
             \<and> map r_item rs = items"
    by blast
  have rest: "\<forall>(t, items) \<in> set groups. items \<noteq> []
           \<and> handles handlers (merge config (options_for mergedOptions typeOptions t)) t"
    using Cons.prems by simp
  from Cons.IH [OF rest] obtain jobs
    where j: "start_types handlers config mergedOptions typeOptions groups = Some jobs"
      "map (\<lambda>(t, items, st). (t, items)) jobs = groups"
      "\<forall>(t, items, st) \<in> set jobs. \<not> is_settled st
               \<and> (\<forall>order fl rnd w. \<exists>rs w1.
                     execute_finish config order fl rnd t items st w
                       = Some (Inr (result_summary rs), w1)
                   \<and> map r_item rs = items)"
    by blast
  let ?job = "(t, items, Scheduled operation batches
                (merge config (options_for mergedOptions typeOptions t)))"
  have a: "start_types handlers config mergedOptions typeOptions (g # groups)
          = Some (?job # jobs)"
    using g st j(1) by simp
  have b: "map (\<lambda>(t, items, st). (t, items)) (?job # jobs) = g # groups"
    using g j(2) by simp
  have c: "\<forall>(t, items, st) \<in> set (?job # jobs). \<not> is_settled st
               \<and> (\<forall>order fl rnd w. \<exists>rs w1.
                     execute_finish config order fl rnd t items st w
                       = Some (Inr (result_summary rs), w1)
                   \<and> map r_item rs = items)"
    using fin j(3) by simp
  show ?case by (rule exI [of _ "?job # jobs"]) (intro conjI a b c)
qed

text \<open>The item results of the summaries of the types, in the order of the types.\<close>

lemma remove_nth_parts:
  assumes "i < length xs"
  shows "set (take i xs @ drop (Suc i) xs) \<subseteq> set xs"
    and "length (take i xs @ drop (Suc i) xs) < length xs"
    and "map f xs = map f (take i xs) @ f (xs ! i) # map f (drop (Suc i) xs)"
proof -
  have xs: "xs = take i xs @ xs ! i # drop (Suc i) xs"
    using assms by (rule id_take_nth_drop)
  show "set (take i xs @ drop (Suc i) xs) \<subseteq> set xs"
    by (subst (3) xs) auto
  show "length (take i xs @ drop (Suc i) xs) < length xs" using assms by simp
  show "map f xs = map f (take i xs) @ f (xs ! i) # map f (drop (Suc i) xs)"
    by (subst xs) (simp del: append_take_drop_id)
qed

lemma finish_types_ends:
  assumes "\<forall>(t, items, st) \<in> set running. \<forall>w. \<exists>rs w1.
             execute_finish config (order t) fl (rnd t) t items st w
               = Some (Inr (result_summary rs), w1)
           \<and> map r_item rs = items"
    and "distinct (map fst typeResults @ map fst running)"
  shows "\<exists>tr ar w1.
           finish_types config order fl rnd completion k running False typeResults allResults w
             = Some (Inr (typeResults @ tr, allResults @ ar), w1)
         \<and> length ar = total_items (map (\<lambda>(t, items, st). (t, items)) running)
         \<and> distinct (map fst (typeResults @ tr))
         \<and> set (map fst tr) = set (map fst running)
         \<and> (\<forall>(t, s) \<in> set tr. \<exists>items st rs.
               (t, items, st) \<in> set running \<and> s = result_summary rs \<and> map r_item rs = items)
         \<and> ar = concat (map (\<lambda>(t, s). case s_results s of None \<Rightarrow> [] | Some rs \<Rightarrow> rs) tr)
         \<and> map fst tr = completed_in completion k (map fst running)"
  using assms
proof (induction "length running" arbitrary: running k typeResults allResults w
    rule: less_induct)
  case less
  show ?case
  proof (cases "running = []")
    case True
    then show ?thesis
      using less.prems(2)
      by (simp add: finish_types.simps [of _ _ _ _ _ _ "[]"] total_items_def
          completed_in.simps [of _ _ "[]"])
  next
    case False
    let ?i = "completion k mod length running"
    let ?rest = "take ?i running @ drop (Suc ?i) running"
    have i: "?i < length running" using False by simp
    obtain t items st where job: "running ! ?i = (t, items, st)" by (cases "running ! ?i")
    have mem: "(t, items, st) \<in> set running" using i job by (metis nth_mem)
    with less.prems(1) obtain rs w1
      where fin: "execute_finish config (order t) fl (rnd t) t items st w
                    = Some (Inr (result_summary rs), w1)"
        and echo: "map r_item rs = items" by blast
    note parts = remove_nth_parts [OF i]
    have keys: "map fst running = map fst (take ?i running) @ t # map fst (drop (Suc ?i) running)"
      using parts(3) [of fst] job by simp
    have ok: "\<forall>(t, items, st) \<in> set ?rest. \<forall>w. \<exists>rs w1.
             execute_finish config (order t) fl (rnd t) t items st w
               = Some (Inr (result_summary rs), w1)
           \<and> map r_item rs = items"
      using less.prems(1) parts(1) by blast
    have dist: "distinct (map fst (typeResults @ [(t, result_summary rs)]) @ map fst ?rest)"
      using less.prems(2) unfolding keys by auto
    from less.hyps [OF parts(2) ok dist, of "Suc k" "allResults @ rs" w1]
    obtain tr ar w2 where
      rec: "finish_types config order fl rnd completion (Suc k) ?rest False
              (typeResults @ [(t, result_summary rs)]) (allResults @ rs) w1
            = Some (Inr ((typeResults @ [(t, result_summary rs)]) @ tr,
                         (allResults @ rs) @ ar), w2)"
      and len: "length ar = total_items (map (\<lambda>(t, items, st). (t, items)) ?rest)"
      and d: "distinct (map fst ((typeResults @ [(t, result_summary rs)]) @ tr))"
      and ks: "set (map fst tr) = set (map fst ?rest)"
      and each: "\<forall>(t, s) \<in> set tr. \<exists>items st rs.
               (t, items, st) \<in> set ?rest \<and> s = result_summary rs \<and> map r_item rs = items"
      and cat: "ar = concat (map (\<lambda>(t, s). case s_results s of None \<Rightarrow> [] | Some rs \<Rightarrow> rs) tr)"
      and ord: "map fst tr = completed_in completion (Suc k) (map fst ?rest)"
      by blast
    let ?tr = "(t, result_summary rs) # tr"
    let ?ar = "rs @ ar"
    have run: "finish_types config order fl rnd completion k running False typeResults
                 allResults w
               = Some (Inr (typeResults @ ?tr, allResults @ ?ar), w2)"
      using False job fin rec
      by (subst finish_types.simps) (simp add: Let_def result_summary_def)
    have "total_items (map (\<lambda>(t, items, st). (t, items)) running)
            = length items + total_items (map (\<lambda>(t, items, st). (t, items)) ?rest)"
      using parts(3) [of "\<lambda>(t, items, st). length items"] job
      by (simp add: total_items_def comp_def case_prod_unfold)
    with len echo have l: "length ?ar = total_items (map (\<lambda>(t, items, st). (t, items)) running)"
      by (metis length_append length_map)
    have d': "distinct (map fst (typeResults @ ?tr))" using d by simp
    have "set (map fst running) = insert t (set (map fst ?rest))"
      by (subst keys) auto
    with ks have ks': "set (map fst ?tr) = set (map fst running)" by simp
    have each': "\<forall>(t, s) \<in> set ?tr. \<exists>items st rs.
               (t, items, st) \<in> set running \<and> s = result_summary rs \<and> map r_item rs = items"
      using each parts(1) mem echo by auto blast
    have cat': "?ar = concat (map (\<lambda>(t, s). case s_results s of None \<Rightarrow> [] | Some rs \<Rightarrow> rs) ?tr)"
      using cat by (simp add: result_summary_def)
    have "completed_in completion k (map fst running)
            = map fst running ! ?i # completed_in completion (Suc k) (map fst ?rest)"
      using False
      by (subst completed_in.simps) (simp add: Let_def take_map drop_map)
    with ord i job have ord': "map fst ?tr = completed_in completion k (map fst running)"
      by simp
    from run l d' ks' each' cat' ord' show ?thesis by blast
  qed
qed

lemma run_types_scheduled:
  assumes "\<forall>(t, items, st) \<in> set jobs. \<not> is_settled st"
  shows "run_types config order fl rnd completion jobs w
           = finish_types config order fl rnd completion 0 jobs False [] [] w"
proof -
  have "settled_jobs jobs = []" "scheduled_jobs jobs = jobs"
    using assms by (auto simp: settled_jobs_def scheduled_jobs_def filter_empty_conv
        filter_id_conv)
  then show ?thesis
    by (simp add: run_types_def finish_types.simps [of _ _ _ _ _ _ "[]"])
qed

lemma batchProcess_catch_shape:
  "batchProcess_catch error n = Inr ms \<Longrightarrow> \<exists>msg. ms = mixed (error_summary msg n) None"
  by (auto simp: batchProcess_catch_def split: sum.splits)

lemma batchProcess_summary_shape:
  assumes "batchProcess handlers config order fl rnd completion operations opts typeOptions w
             = Some (Inr ms, w1)"
  shows "(s_success ms \<longrightarrow> s_operations ms = s_succeeded ms + s_failed ms)
       \<and> (\<not> s_success ms \<longrightarrow> s_operations ms = 0 \<and> s_succeeded ms = 0
             \<and> s_failed ms = (if enabled config then length operations else 0))"
proof -
  have le: "length (filter (\<lambda>r. r_success r) xs) \<le> length xs" for xs :: "item_result list"
    by (rule length_filter_le)
  have caught: "(s_success ms \<longrightarrow> s_operations ms = s_succeeded ms + s_failed ms)
       \<and> (\<not> s_success ms \<longrightarrow> s_operations ms = 0 \<and> s_succeeded ms = 0
             \<and> s_failed ms = length operations)"
    if "batchProcess_catch error (length operations) = Inr ms" for error
    using batchProcess_catch_shape [OF that] by (auto simp: mixed_def error_summary_def)
  show ?thesis
  proof (cases "\<not> enabled config \<or> length operations = 0")
    case True
    with assms show ?thesis
      by (auto simp: batchProcess_def mixed_def disabled_summary_def nothing_summary_def
          split: if_splits)
  next
    case False
    then have en: "enabled config" "length operations \<noteq> 0" by simp_all
    show ?thesis
    proof (cases "group_operations operations []")
      case (Inl error)
      with assms en have "batchProcess_catch error (length operations) = Inr ms"
        by (simp add: batchProcess_def Let_def)
      from caught [OF this] en show ?thesis by simp
    next
      case (Inr byType)
      with assms en obtain jobs
        where jobs: "start_types handlers config (merge config opts) typeOptions byType
                       = Some jobs"
        by (auto simp: batchProcess_def Let_def split: option.splits)
      with assms en Inr obtain x w2
        where run: "run_types config order fl rnd completion jobs w = Some (x, w2)"
        by (auto simp: batchProcess_def Let_def split: option.splits)
      show ?thesis
      proof (cases x)
        case (Inl msg)
        with assms en Inr jobs run
        have "batchProcess_catch (Error msg) (length operations) = Inr ms"
          by (simp add: batchProcess_def Let_def)
        from caught [OF this] en show ?thesis by simp
      next
        case r: (Inr pair)
        obtain typeResults allResults where pair: "pair = (typeResults, allResults)"
          by (cases pair)
        let ?summary = "\<lparr> s_success = True, s_error = None, s_message = None,
                          s_operations = length allResults,
                          s_succeeded = length (filter (\<lambda>r. r_success r) allResults),
                          s_failed = length allResults
                                       - length (filter (\<lambda>r. r_success r) allResults),
                          s_results = Some allResults,
                          s_typeResults = Some typeResults \<rparr>"
        from assms en Inr jobs run r pair
        have "ms = ?summary \<or> (\<exists>error. batchProcess_catch error (length operations) = Inr ms)"
          by (auto simp: batchProcess_def Let_def split: if_splits prod.splits option.splits)
        then show ?thesis
        proof
          assume "ms = ?summary"
          then show ?thesis using le [of allResults] by simp
        next
          assume "\<exists>error. batchProcess_catch error (length operations) = Inr ms"
          then obtain error where "batchProcess_catch error (length operations) = Inr ms"
            by blast
          from caught [OF this] en show ?thesis by simp
        qed
      qed
    qed
  qed
qed

lemma execute_counts:
  assumes "execute handlers config order fl rnd t items opts w = Some (Inr s, w1)"
  shows "(s_success s \<longrightarrow> s_operations s = s_succeeded s + s_failed s)
       \<and> (\<not> s_success s \<longrightarrow> s_operations s = 0 \<and> s_succeeded s = 0
             \<and> s_failed s = (if enabled config then length items else 0))"
  using execute_summary_shape [OF assms]
  by (auto simp: disabled_summary_def nothing_summary_def error_summary_def result_summary_def
      sum_length_filter_compl)

lemmas mixed_defs = batchProcess_def batchProcess_catch_def run_types_def settled_jobs_def
  scheduled_jobs_def map_order_def finish_types.simps push_data_def options_for_def
  no_type_options_def override_def as_overrides_def every_type_def result_summary_def

lemma batchProcess_mixed:
  "batchProcess standard_handlers example_options (every_type oldest_first) exact
     (every_type mid_draw) oldest_first mixed_operations no_overrides no_type_options 0
   = Some (Inr \<lparr> s_success = True, s_error = None, s_message = None, s_operations = 2,
              s_succeeded = 2, s_failed = 0,
              s_results = Some
                [\<lparr> r_success = True, r_result = Some (JObj [(''title'', JStr ''Task 1'')]),
                   r_error = None, r_id = None, r_item = JObj [(''title'', JStr ''Task 1'')] \<rparr>,
                 \<lparr> r_success = True, r_result = Some (JBool True), r_error = None,
                   r_id = Some (JNum 5), r_item = JNum 5 \<rparr>],
              s_typeResults = Some
                [(''create'', result_summary
                    [\<lparr> r_success = True, r_result = Some (JObj [(''title'', JStr ''Task 1'')]),
                       r_error = None, r_id = None,
                       r_item = JObj [(''title'', JStr ''Task 1'')] \<rparr>]),
                 (''delete'', result_summary
                    [\<lparr> r_success = True, r_result = Some (JBool True), r_error = None,
                       r_id = Some (JNum 5), r_item = JNum 5 \<rparr>])] \<rparr>,
           2)"
  by (simp add: mixed_defs mixed_operations_def example_options_def counting_repository_def
      counting_processor_def eval_defs)

lemma batchProcess_mixed_delete_first:
  "batchProcess standard_handlers example_options (every_type oldest_first) exact
     (every_type mid_draw) second_first mixed_operations no_overrides no_type_options 0
   = Some (Inr \<lparr> s_success = True, s_error = None, s_message = None, s_operations = 2,
              s_succeeded = 2, s_failed = 0,
              s_results = Some
                [\<lparr> r_success = True, r_result = Some (JBool True), r_error = None,
                   r_id = Some (JNum 5), r_item = JNum 5 \<rparr>,
                 \<lparr> r_success = True, r_result = Some (JObj [(''title'', JStr ''Task 1'')]),
                   r_error = None, r_id = None, r_item = JObj [(''title'', JStr ''Task 1'')] \<rparr>],
              s_typeResults = Some
                [(''delete'', result_summary
                    [\<lparr> r_success = True, r_result = Some (JBool True), r_error = None,
                       r_id = Some (JNum 5), r_item = JNum 5 \<rparr>]),
                 (''create'', result_summary
                    [\<lparr> r_success = True, r_result = Some (JObj [(''title'', JStr ''Task 1'')]),
                       r_error = None, r_id = None,
                       r_item = JObj [(''title'', JStr ''Task 1'')] \<rparr>])] \<rparr>,
           2)"
  by (simp add: mixed_defs mixed_operations_def example_options_def counting_repository_def
      counting_processor_def eval_defs)

lemma batchProcess_falsy_data:
  "batchProcess standard_handlers BATCH_OPERATIONS_CONFIG (every_type oldest_first) exact
     (every_type mid_draw) oldest_first
     [\<lparr> op_type = Some ''delete'', op_data = JNum 0 \<rparr>] no_overrides no_type_options (0::nat)
   = Some (Inr (mixed (error_summary (Some ''Each operation must have a type and data'') 1)
                  None), 0)"
  by (simp add: batchProcess_def batchProcess_catch_def BATCH_OPERATIONS_CONFIG_def)

lemma batchProcess_unknown:
  "batchProcess standard_handlers BATCH_OPERATIONS_CONFIG (every_type oldest_first) exact
     (every_type mid_draw) oldest_first
     [\<lparr> op_type = Some ''archive'', op_data = JNum 5 \<rparr>] no_overrides no_type_options (0::nat)
   = Some (Inr (mixed (error_summary (Some ''Unknown operation type: archive'') 1) None), 0)"
  by (simp add: mixed_defs eval_defs)

lemma batchProcess_missing_data:
  "batchProcess standard_handlers BATCH_OPERATIONS_CONFIG (every_type oldest_first) exact
     (every_type mid_draw) oldest_first
     [\<lparr> op_type = Some ''create'', op_data = JUndefined \<rparr>] no_overrides no_type_options (0::nat)
   = Some (Inr (mixed (error_summary (Some ''Each operation must have a type and data'') 1)
                  None), 0)"
  by (simp add: batchProcess_def batchProcess_catch_def BATCH_OPERATIONS_CONFIG_def)

lemma batchProcess_missing_type:
  "batchProcess standard_handlers BATCH_OPERATIONS_CONFIG (every_type oldest_first) exact
     (every_type mid_draw) oldest_first
     [\<lparr> op_type = None, op_data = JNum 1 \<rparr>] no_overrides no_type_options (0::nat)
   = Some (Inr (mixed (error_summary (Some ''Each operation must have a type and data'') 1)
                  None), 0)"
  by (simp add: batchProcess_def batchProcess_catch_def BATCH_OPERATIONS_CONFIG_def)

lemma standard_handles:
  assumes "t \<in> {''create'', ''update'', ''delete'', ''custom''}"
    and "batchSize m = Count b" "0 < b" "0 < maxConcurrent m" "0 < retryAttempts m"
  shows "handles standard_handlers m t"
  using assms
  by (auto simp: handles_def standard_handlers_def CreateOperation_def UpdateOperation_def
      DeleteOperation_def CustomOperation_def validate_def standard_operations_yield
      standard_operations_reject)

text \<open>
  Claim C1, as stated, fails: the summary built in the catch block has
  \<open>operations: 0\<close>, \<open>succeeded: 0\<close> and \<open>failed\<close> set to the number of inputs. So it is
  for \<open>batchProcess\<close> on a descriptor without data, and for \<open>execute\<close> with the guide's
  \<open>CustomImportOperation\<close>, whose missing \<open>validate\<close> throws inside the \<open>try\<close> block.
\<close>

theorem summary_counts_counterexample:
  "batchProcess standard_handlers BATCH_OPERATIONS_CONFIG (every_type oldest_first) exact
     (every_type mid_draw) oldest_first
     [\<lparr> op_type = Some ''create'', op_data = JUndefined \<rparr>] no_overrides no_type_options (0::nat)
   = Some (Inr (mixed (error_summary (Some ''Each operation must have a type and data'') 1)
                  None), 0)
   \<and> s_operations (mixed (error_summary (Some ''Each operation must have a type and data'') 1)
                      None)
       \<noteq> s_succeeded (mixed (error_summary (Some ''Each operation must have a type and data'') 1)
                         None)
         + s_failed (mixed (error_summary (Some ''Each operation must have a type and data'') 1)
                       None)
   \<and> execute guide_handlers BATCH_OPERATIONS_CONFIG oldest_first exact mid_draw ''import''
       [JNum 1, JNum 2] no_overrides (0::nat)
     = Some (Inr (error_summary (Some ''operation.validate is not a function'') 2), 0)
   \<and> s_operations (error_summary (Some ''operation.validate is not a function'') 2)
       \<noteq> s_succeeded (error_summary (Some ''operation.validate is not a function'') 2)
         + s_failed (error_summary (Some ''operation.validate is not a function'') 2)"
  by (simp add: batchProcess_missing_data execute_import mixed_def error_summary_def)

text \<open>
  Claim C1, amended. Every summary \<open>execute\<close> or \<open>batchProcess\<close> returns with
  \<open>success: true\<close> has \<open>operations = succeeded + failed\<close>. Every summary they return
  with \<open>success: false\<close> has \<open>operations = 0\<close> and \<open>succeeded = 0\<close>, and \<open>failed\<close> is the
  number of input items (of input descriptors for \<open>batchProcess\<close>) on an enabled engine
  and \<open>0\<close> on a disabled one.
\<close>

theorem summary_counts:
  "(execute handlers config order fl rnd t items opts w = Some (Inr s, w1) \<longrightarrow>
      (s_success s \<longrightarrow> s_operations s = s_succeeded s + s_failed s)
    \<and> (\<not> s_success s \<longrightarrow> s_operations s = 0 \<and> s_succeeded s = 0
          \<and> s_failed s = (if enabled config then length items else 0)))
   \<and> (batchProcess handlers config orders fl rnds completion operations opts typeOptions w
        = Some (Inr ms, w2) \<longrightarrow>
      (s_success ms \<longrightarrow> s_operations ms = s_succeeded ms + s_failed ms)
    \<and> (\<not> s_success ms \<longrightarrow> s_operations ms = 0 \<and> s_succeeded ms = 0
          \<and> s_failed ms = (if enabled config then length operations else 0)))"
proof (rule conjI)
  show "execute handlers config order fl rnd t items opts w = Some (Inr s, w1) \<longrightarrow>
      (s_success s \<longrightarrow> s_operations s = s_succeeded s + s_failed s)
    \<and> (\<not> s_success s \<longrightarrow> s_operations s = 0 \<and> s_succeeded s = 0
          \<and> s_failed s = (if enabled config then length items else 0))"
    by (rule impI) (rule execute_counts)
  show "batchProcess handlers config orders fl rnds completion operations opts typeOptions w
        = Some (Inr ms, w2) \<longrightarrow>
      (s_success ms \<longrightarrow> s_operations ms = s_succeeded ms + s_failed ms)
    \<and> (\<not> s_success ms \<longrightarrow> s_operations ms = 0 \<and> s_succeeded ms = 0
          \<and> s_failed ms = (if enabled config then length operations else 0))"
    by (rule impI) (rule batchProcess_summary_shape)
qed

theorem summary_counts_witness:
  "s_operations (result_summary
        [\<lparr> r_success = True, r_result = Some (JObj [(''id'', JNum 1)]), r_error = None,
           r_id = None, r_item = JObj [(''id'', JNum 1)] \<rparr>,
         \<lparr> r_success = False, r_result = None, r_error = Some ''update failed'',
           r_id = None, r_item = JObj [(''id'', JNum 2)] \<rparr>,
         \<lparr> r_success = True, r_result = Some (JObj [(''id'', JNum 3)]), r_error = None,
           r_id = None, r_item = JObj [(''id'', JNum 3)] \<rparr>]) = 3
   \<and> s_succeeded (result_summary
        [\<lparr> r_success = True, r_result = Some (JObj [(''id'', JNum 1)]), r_error = None,
           r_id = None, r_item = JObj [(''id'', JNum 1)] \<rparr>,
         \<lparr> r_success = False, r_result = None, r_error = Some ''update failed'',
           r_id = None, r_item = JObj [(''id'', JNum 2)] \<rparr>,
         \<lparr> r_success = True, r_result = Some (JObj [(''id'', JNum 3)]), r_error = None,
           r_id = None, r_item = JObj [(''id'', JNum 3)] \<rparr>]) = 2
   \<and> s_failed (result_summary
        [\<lparr> r_success = True, r_result = Some (JObj [(''id'', JNum 1)]), r_error = None,
           r_id = None, r_item = JObj [(''id'', JNum 1)] \<rparr>,
         \<lparr> r_success = False, r_result = None, r_error = Some ''update failed'',
           r_id = None, r_item = JObj [(''id'', JNum 2)] \<rparr>,
         \<lparr> r_success = True, r_result = Some (JObj [(''id'', JNum 3)]), r_error = None,
           r_id = None, r_item = JObj [(''id'', JNum 3)] \<rparr>]) = 1
   \<and> s_failed (mixed (error_summary (Some ''Each operation must have a type and data'') 1)
                  None) = 1"
proof -
  have en: "enabled (BATCH_OPERATIONS_CONFIG :: nat options)"
    by (simp add: BATCH_OPERATIONS_CONFIG_def)
  note t1 = summary_counts [THEN conjunct1, THEN mp, OF execute_three_updates]
  note t2 = summary_counts [THEN conjunct2, THEN mp, OF batchProcess_missing_type]
  show ?thesis using t1 t2 en
    by (simp add: result_summary_def mixed_def error_summary_def)
qed

text \<open>
  Claim C9, as stated, fails: a descriptor whose data is a falsy value (\<open>0\<close>) is
  refused by the check \<open>!op.type || !op.data\<close>, and a descriptor of a type that is not
  registered makes \<open>execute\<close> throw; either way \<open>batchProcess\<close> returns the summary of
  its catch block, with \<open>operations: 0\<close> for one input descriptor.
\<close>

theorem batchProcess_counts_counterexample:
  "batchProcess standard_handlers BATCH_OPERATIONS_CONFIG (every_type oldest_first) exact
     (every_type mid_draw) oldest_first
     [\<lparr> op_type = Some ''delete'', op_data = JNum 0 \<rparr>] no_overrides no_type_options (0::nat)
   = Some (Inr (mixed (error_summary (Some ''Each operation must have a type and data'') 1)
                  None), 0)
   \<and> s_operations (mixed (error_summary (Some ''Each operation must have a type and data'') 1)
                      None) = 0
   \<and> batchProcess standard_handlers BATCH_OPERATIONS_CONFIG (every_type oldest_first) exact
     (every_type mid_draw) oldest_first
     [\<lparr> op_type = Some ''archive'', op_data = JNum 5 \<rparr>] no_overrides no_type_options (0::nat)
   = Some (Inr (mixed (error_summary (Some ''Unknown operation type: archive'') 1) None), 0)
   \<and> s_operations (mixed (error_summary (Some ''Unknown operation type: archive'') 1) None) = 0"
  by (simp add: batchProcess_falsy_data batchProcess_unknown mixed_def error_summary_def)

text \<open>
  Claim C9, amended. On an enabled engine whose metrics collector throws nothing when
  profiling is on, for every sequence of descriptors that each carry a non-empty type
  and a truthy data value, of types the registry and the effective options handle,
  \<open>batchProcess\<close> groups the data values by type (one group per distinct type, holding
  the data of that type's descriptors in input order), runs \<open>execute\<close> once per group
  and returns a success summary whose \<open>operations\<close> is the number of input descriptors.
  In whatever order the calls complete, \<open>typeResults\<close> has one entry for each group,
  in the order in which the calls completed, each a success summary whose results
  carry the group's data values in their order, and the results of the merged summary
  are those of the entries of \<open>typeResults\<close>, one entry after the other.
\<close>

theorem batchProcess_counts:
  assumes "enabled config" and "records_quietly config"
    and "\<forall>d\<in>set operations. \<exists>t. op_type d = Some t \<and> t \<noteq> [] \<and> truthy (op_data d)
           \<and> handles handlers
                (merge config (options_for (merge config opts) typeOptions t)) t"
  shows "\<exists>groups ms w1.
           group_operations operations [] = Inr groups
         \<and> distinct (map fst groups)
         \<and> set (map fst groups) = {t. \<exists>d\<in>set operations. op_type d = Some t}
         \<and> (\<forall>t\<in>set (map fst groups).
               map_of groups t = Some (map op_data (filter (\<lambda>d. op_type d = Some t) operations)))
         \<and> batchProcess handlers config orders fl rnds completion operations opts typeOptions w
             = Some (Inr ms, w1)
         \<and> s_success ms
         \<and> s_operations ms = length operations
         \<and> (operations \<noteq> [] \<longrightarrow>
               (\<exists>typeResults. s_typeResults ms = Some typeResults
                   \<and> map fst typeResults = completed_in completion 0 (map fst groups)
                   \<and> distinct (map fst typeResults)
                   \<and> set (map fst typeResults) = set (map fst groups)
                   \<and> (\<forall>(t, s)\<in>set typeResults. \<exists>rs.
                         s = result_summary rs \<and> map_of groups t = Some (map r_item rs))
                   \<and> s_results ms
                       = Some (concat (map (\<lambda>(t, s). case s_results s of None \<Rightarrow> []
                                                     | Some rs \<Rightarrow> rs) typeResults))))"
proof (cases "operations = []")
  case True
  then show ?thesis
    using assms(1) by (simp add: batchProcess_def mixed_def nothing_summary_def)
next
  case False
  have wf: "\<forall>d\<in>set operations. \<exists>t. op_type d = Some t \<and> t \<noteq> [] \<and> truthy (op_data d)"
    using assms(3) by blast
  from group_operations_ends [OF wf, of "[]"]
  obtain g where g: "group_operations operations [] = Inr g" "distinct (map fst g)"
    "set (map fst g) = {t. \<exists>d\<in>set operations. op_type d = Some t}"
    "total_items g = length operations"
    "\<forall>t. t \<in> set (map fst g) \<longrightarrow>
        map_of g t = Some (map op_data (filter (\<lambda>d. op_type d = Some t) operations))"
    by (auto simp: total_items_def)
  have good: "\<forall>(t, items) \<in> set g. items \<noteq> []
       \<and> handles handlers (merge config (options_for (merge config opts) typeOptions t)) t"
  proof (clarify, rule conjI)
    fix t items
    assume m: "(t, items) \<in> set g"
    then have k: "t \<in> set (map fst g)" by force
    with g(3) obtain d where d: "d \<in> set operations" "op_type d = Some t" by auto
    from m g(2) have "map_of g t = Some items" by simp
    with g(5) k have "items = map op_data (filter (\<lambda>d. op_type d = Some t) operations)"
      by simp
    moreover have "d \<in> set (filter (\<lambda>d. op_type d = Some t) operations)" using d by simp
    then have "filter (\<lambda>d. op_type d = Some t) operations \<noteq> []" by (metis empty_iff empty_set)
    ultimately show "items \<noteq> []" by simp
    from assms(3) d
    show "handles handlers (merge config (options_for (merge config opts) typeOptions t)) t"
      by auto
  qed
  from start_types_ends [OF assms(1) assms(2) good]
  obtain jobs where jobs: "start_types handlers config (merge config opts) typeOptions g
                             = Some jobs"
    and same: "map (\<lambda>(t, items, st). (t, items)) jobs = g"
    and each: "\<forall>(t, items, st) \<in> set jobs. \<not> is_settled st
               \<and> (\<forall>order fl rnd w. \<exists>rs w1.
                     execute_finish config order fl rnd t items st w
                       = Some (Inr (result_summary rs), w1)
                   \<and> map r_item rs = items)"
    by blast
  have keys: "map fst jobs = map fst g"
  proof -
    have "map fst (map (\<lambda>(t, items, st). (t, items)) jobs) = map fst jobs"
      by (simp add: comp_def case_prod_unfold)
    with same show ?thesis by simp
  qed
  have sched: "\<forall>(t, items, st) \<in> set jobs. \<not> is_settled st" using each by blast
  have fin: "\<forall>(t, items, st) \<in> set jobs. \<forall>w. \<exists>rs w1.
             execute_finish config (orders t) fl (rnds t) t items st w
               = Some (Inr (result_summary rs), w1)
           \<and> map r_item rs = items"
    using each by blast
  have dist: "distinct (map fst ([] :: (string \<times> summary) list) @ map fst jobs)"
    using g(2) keys by simp
  from finish_types_ends [OF fin dist, of completion 0 "[]" w]
  have "\<exists>tr ar w1.
           finish_types config orders fl rnds completion 0 jobs False [] [] w
             = Some (Inr (tr, ar), w1)
         \<and> length ar = total_items (map (\<lambda>(t, items, st). (t, items)) jobs)
         \<and> distinct (map fst tr)
         \<and> set (map fst tr) = set (map fst jobs)
         \<and> (\<forall>(t, s) \<in> set tr. \<exists>items st rs.
               (t, items, st) \<in> set jobs \<and> s = result_summary rs \<and> map r_item rs = items)
         \<and> ar = concat (map (\<lambda>(t, s). case s_results s of None \<Rightarrow> [] | Some rs \<Rightarrow> rs) tr)
         \<and> map fst tr = completed_in completion 0 (map fst jobs)"
    by (simp only: append_Nil)
  then obtain tr ar w1 where
    run: "finish_types config orders fl rnds completion 0 jobs False [] [] w
            = Some (Inr (tr, ar), w1)"
    and len: "length ar = total_items (map (\<lambda>(t, items, st). (t, items)) jobs)"
    and d: "distinct (map fst tr)"
    and ks: "set (map fst tr) = set (map fst jobs)"
    and ent: "\<forall>(t, s) \<in> set tr. \<exists>items st rs.
               (t, items, st) \<in> set jobs \<and> s = result_summary rs \<and> map r_item rs = items"
    and cat: "ar = concat (map (\<lambda>(t, s). case s_results s of None \<Rightarrow> [] | Some rs \<Rightarrow> rs) tr)"
    and ord: "map fst tr = completed_in completion 0 (map fst jobs)"
    by blast
  have rt: "run_types config orders fl rnds completion jobs w = Some (Inr (tr, ar), w1)"
    using run_types_scheduled [OF sched] run by simp
  have len': "length ar = length operations" using len same g(4) by simp
  define ms where "ms = \<lparr> s_success = True, s_error = None, s_message = None,
                 s_operations = length ar,
                 s_succeeded = length (filter (\<lambda>r. r_success r) ar),
                 s_failed = length ar - length (filter (\<lambda>r. r_success r) ar),
                 s_results = Some ar, s_typeResults = Some tr \<rparr>"
  let ?mt = "\<lparr> m_operation = ''batch_mixed'',
               m_success = (length ar - length (filter (\<lambda>r. r_success r) ar) = 0),
               m_total = length ar,
               m_successCount = length (filter (\<lambda>r. r_success r) ar),
               m_failureCount = length ar - length (filter (\<lambda>r. r_success r) ar) \<rparr>"
  have "\<exists>w2. batchProcess handlers config orders fl rnds completion operations opts
                typeOptions w = Some (Inr ms, w2)"
  proof (cases "profiling config")
    case no: False
    with assms(1) False g(1) jobs rt show ?thesis
      by (simp add: batchProcess_def Let_def ms_def)
  next
    case yes: True
    obtain x w2 where c: "metricsCollector config ?mt w1 = (x, w2)"
      by (cases "metricsCollector config ?mt w1")
    from assms(2) yes have "fst (metricsCollector config ?mt w1) = None"
      unfolding records_quietly_def by blast
    with c have "x = None" by simp
    with assms(1) False g(1) jobs rt yes c show ?thesis
      by (simp add: batchProcess_def Let_def ms_def)
  qed
  then obtain w2 where bp: "batchProcess handlers config orders fl rnds completion operations
      opts typeOptions w = Some (Inr ms, w2)" by blast
  have f: "s_success ms" "s_operations ms = length operations" "s_typeResults ms = Some tr"
    by (simp_all add: ms_def len')
  have "s_results ms = Some ar" by (simp add: ms_def)
  with cat have f4: "s_results ms = Some (concat (map (\<lambda>(t, s). case s_results s of None \<Rightarrow> []
                                       | Some rs \<Rightarrow> rs) tr))"
    by simp
  have grp: "\<forall>t\<in>set (map fst g).
      map_of g t = Some (map op_data (filter (\<lambda>d. op_type d = Some t) operations))"
    using g(5) by blast
  have ks': "set (map fst tr) = set (map fst g)" using ks keys by simp
  have ent': "\<forall>(t, s)\<in>set tr. \<exists>rs. s = result_summary rs \<and> map_of g t = Some (map r_item rs)"
  proof (clarify)
    fix t s
    assume "(t, s) \<in> set tr"
    with ent obtain items st rs where j: "(t, items, st) \<in> set jobs"
      and s: "s = result_summary rs" and e: "map r_item rs = items" by blast
    from j have "(t, items) \<in> set (map (\<lambda>(t, items, st). (t, items)) jobs)"
      by force
    with same have "(t, items) \<in> set g" by simp
    with g(2) have "map_of g t = Some items" by simp
    with s e show "\<exists>rs. s = result_summary rs \<and> map_of g t = Some (map r_item rs)" by blast
  qed
  have ord': "map fst tr = completed_in completion 0 (map fst g)" using ord keys by simp
  have tail: "operations \<noteq> [] \<longrightarrow>
               (\<exists>typeResults. s_typeResults ms = Some typeResults
                   \<and> map fst typeResults = completed_in completion 0 (map fst g)
                   \<and> distinct (map fst typeResults)
                   \<and> set (map fst typeResults) = set (map fst g)
                   \<and> (\<forall>(t, s)\<in>set typeResults. \<exists>rs.
                         s = result_summary rs \<and> map_of g t = Some (map r_item rs))
                   \<and> s_results ms
                       = Some (concat (map (\<lambda>(t, s). case s_results s of None \<Rightarrow> []
                                                     | Some rs \<Rightarrow> rs) typeResults)))"
    using f(3) f4 d ks' ent' ord' by blast
  show ?thesis
    by (intro exI [of _ g] exI [of _ ms] exI [of _ w2] conjI g(1) g(2) g(3) grp bp f(1) f(2) tail)
qed

theorem batchProcess_counts_witness:
  "batchProcess standard_handlers example_options (every_type oldest_first) exact
     (every_type mid_draw) oldest_first mixed_operations no_overrides no_type_options 0
   = Some (Inr \<lparr> s_success = True, s_error = None, s_message = None, s_operations = 2,
              s_succeeded = 2, s_failed = 0,
              s_results = Some
                [\<lparr> r_success = True, r_result = Some (JObj [(''title'', JStr ''Task 1'')]),
                   r_error = None, r_id = None, r_item = JObj [(''title'', JStr ''Task 1'')] \<rparr>,
                 \<lparr> r_success = True, r_result = Some (JBool True), r_error = None,
                   r_id = Some (JNum 5), r_item = JNum 5 \<rparr>],
              s_typeResults = Some
                [(''create'', result_summary
                    [\<lparr> r_success = True, r_result = Some (JObj [(''title'', JStr ''Task 1'')]),
                       r_error = None, r_id = None,
                       r_item = JObj [(''title'', JStr ''Task 1'')] \<rparr>]),
                 (''delete'', result_summary
                    [\<lparr> r_success = True, r_result = Some (JBool True), r_error = None,
                       r_id = Some (JNum 5), r_item = JNum 5 \<rparr>])] \<rparr>,
           2)
   \<and> batchProcess standard_handlers example_options (every_type oldest_first) exact
     (every_type mid_draw) second_first mixed_operations no_overrides no_type_options 0
   = Some (Inr \<lparr> s_success = True, s_error = None, s_message = None, s_operations = 2,
              s_succeeded = 2, s_failed = 0,
              s_results = Some
                [\<lparr> r_success = True, r_result = Some (JBool True), r_error = None,
                   r_id = Some (JNum 5), r_item = JNum 5 \<rparr>,
                 \<lparr> r_success = True, r_result = Some (JObj [(''title'', JStr ''Task 1'')]),
                   r_error = None, r_id = None, r_item = JObj [(''title'', JStr ''Task 1'')] \<rparr>],
              s_typeResults = Some
                [(''delete'', result_summary
                    [\<lparr> r_success = True, r_result = Some (JBool True), r_error = None,
                       r_id = Some (JNum 5), r_item = JNum 5 \<rparr>]),
                 (''create'', result_summary
                    [\<lparr> r_success = True, r_result = Some (JObj [(''title'', JStr ''Task 1'')]),
                       r_error = None, r_id = None,
                       r_item = JObj [(''title'', JStr ''Task 1'')] \<rparr>])] \<rparr>,
           2)"
proof -
  let ?c = "example_options"
  have h1: "enabled ?c" by (simp add: example_options_def BATCH_OPERATIONS_CONFIG_def)
  have h2: "records_quietly ?c"
    by (simp add: records_quietly_def example_options_def BATCH_OPERATIONS_CONFIG_def)
  have pos: "batchSize (merge ?c (options_for (merge ?c no_overrides) no_type_options t))
               = Count 50"
    "0 < (50::nat)"
    "0 < maxConcurrent (merge ?c (options_for (merge ?c no_overrides) no_type_options t))"
    "0 < retryAttempts (merge ?c (options_for (merge ?c no_overrides) no_type_options t))" for t
    by (simp_all add: merge_def options_for_def override_def as_overrides_def orElse_def
        no_overrides_def no_type_options_def example_options_def BATCH_OPERATIONS_CONFIG_def)
  have h3: "\<forall>d\<in>set mixed_operations. \<exists>t. op_type d = Some t \<and> t \<noteq> [] \<and> truthy (op_data d)
           \<and> handles standard_handlers
                (merge ?c (options_for (merge ?c no_overrides) no_type_options t)) t"
    by (simp add: mixed_operations_def standard_handles [OF _ pos])
  note t = batchProcess_counts [where config = ?c and operations = mixed_operations
      and handlers = standard_handlers and opts = no_overrides
      and typeOptions = no_type_options and orders = "every_type oldest_first"
      and fl = exact and rnds = "every_type mid_draw" and w = 0, OF h1 h2 h3]
  show ?thesis using t [of oldest_first] t [of second_first]
    by (intro conjI) (rule batchProcess_mixed batchProcess_mixed_delete_first)+
qed

end
